theory Spec2Isabelle
  imports Complex_Main
begin

section \<open>Values exchanged with the source API\<close>

text \<open>
  The program handles decoded JSON: \<^verbatim>\<open>None\<close>, booleans, integers, finite floats (kept
  by their exact rational value), strings, lists and dictionaries. A dictionary is an
  association list in insertion order; a key is looked up with \<open>map_of\<close>.
  A Python \<^verbatim>\<open>str\<close> is kept as the bytes of its UTF-8 encoding, so the full-width colon
  U+FF1A of \<^verbatim>\<open>_safe_str\<close> is the three bytes EF BC 9A, and an ASCII character never
  occurs inside the encoding of another character.
\<close>

datatype json =
    JNull
  | JBool bool
  | JInt int
  | JFloat rat
  | JStr string
  | JList "json list"
  | JDict "(string \<times> json) list"

text \<open>The exceptions the modelled code can raise.\<close>

datatype error =
    RequestException
  | HTTPError int
  | JSONDecodeError
  | AttributeError
  | UnboundLocalError
  | TypeError
  | OverflowError
  | ZeroDivisionError

section \<open>The retrying fetcher\<close>

text \<open>
  A request is a URL with optional query parameters. \<^verbatim>\<open>params\<close> of the source is a
  dictionary with \<^verbatim>\<open>limit\<close> and one of \<^verbatim>\<open>offset\<close> or \<^verbatim>\<open>page\<close>.
\<close>

datatype selector = ByOffset int | ByPage int

record params =
  limit :: int
  selector :: selector

record response =
  status_code :: int
  location :: "string option"
  body :: "json option"

text \<open>
  The outcome of one \<^verbatim>\<open>requests.get\<close>: it raises a \<^verbatim>\<open>RequestException\<close> (connection
  error, timeout) or returns a response. The network is any function from the number of
  calls made so far and the request to an outcome, so a server may answer the same
  request differently each time.
\<close>

datatype reply = Fails | Responds response

type_synonym request = "string \<times> params option"
type_synonym network = "nat \<Rightarrow> request \<Rightarrow> reply"

text \<open>\<^verbatim>\<open>Response.is_redirect\<close> of requests: a Location header and a redirect status.\<close>

definition is_redirect :: "response \<Rightarrow> bool" where
  "is_redirect r \<longleftrightarrow> location r \<noteq> None \<and> status_code r \<in> {301, 302, 303, 307, 308}"

definition startswith :: "string \<Rightarrow> string \<Rightarrow> bool" where
  "startswith s p \<longleftrightarrow> take (length p) s = p"

text \<open>
  Lines 84-89: the target of the one rewritten redirect, when there is one.
\<close>

definition redirect_target :: "response \<Rightarrow> string option" where
  "redirect_target r =
     (if is_redirect r then
        (case location r of
           None \<Rightarrow> None
         | Some loc \<Rightarrow>
             if loc \<noteq> [] \<and> startswith loc ''http://''
             then Some (''https://'' @ drop (length ''http://'') loc)
             else None)
      else None)"

text \<open>
  Lines 90-93: the explicit check of the retryable statuses, then
  \<^verbatim>\<open>raise_for_status\<close>, which raises \<^verbatim>\<open>HTTPError\<close> for every status from 400 to 599.
\<close>

definition check_status :: "response \<Rightarrow> error + response" where
  "check_status r =
     (if status_code r \<in> {429, 500, 502, 503, 504} then Inl (HTTPError (status_code r))
      else if 400 \<le> status_code r \<and> status_code r < 600 then Inl (HTTPError (status_code r))
      else Inr r)"

text \<open>
  The body of the \<^verbatim>\<open>try\<close> block (lines 82-93), started when \<open>n\<close> calls have been made.
  It returns the value or the \<^verbatim>\<open>RequestException\<close> caught by line 94 (\<^verbatim>\<open>HTTPError\<close> is
  a subclass of it), with the number of calls made afterwards.
\<close>

definition try_get :: "network \<Rightarrow> string \<Rightarrow> params \<Rightarrow> nat \<Rightarrow> (error + response) \<times> nat" where
  "try_get net url ps n =
     (case net n (url, Some ps) of
        Fails \<Rightarrow> (Inl RequestException, n + 1)
      | Responds r \<Rightarrow>
          (case redirect_target r of
             None \<Rightarrow> (check_status r, n + 1)
           | Some loc \<Rightarrow>
               (case net (n + 1) (loc, None) of
                  Fails \<Rightarrow> (Inl RequestException, n + 2)
                | Responds r2 \<Rightarrow> (check_status r2, n + 2))))"

text \<open>
  The loop of \<^verbatim>\<open>_request_with_retry\<close>. The state is \<^verbatim>\<open>attempt\<close>, the number of calls
  made and the log of sleeps: the entry \<open>k\<close> stands for
  \<^verbatim>\<open>time.sleep(BACKOFF_BASE ** k)\<close>, whose length is a floating-point power and is kept
  by its exponent. \<^verbatim>\<open>BACKOFF_BASE\<close> is taken to be a non-negative number, as its
  default 1.4 is, so that the sleep does not raise. The result is the response returned
  or the exception that leaves the function.
\<close>

function retry_loop ::
  "int \<Rightarrow> network \<Rightarrow> string \<Rightarrow> params \<Rightarrow> nat \<Rightarrow> nat \<Rightarrow> nat list
     \<Rightarrow> (error + response) \<times> nat \<times> nat list" where
  "retry_loop MAX_RETRIES net url ps attempt n sleeps =
     (case try_get net url ps n of
        (Inr r, n') \<Rightarrow> (Inr r, n', sleeps)
      | (Inl e, n') \<Rightarrow>
          (if int (attempt + 1) > MAX_RETRIES then (Inl e, n', sleeps)
           else retry_loop MAX_RETRIES net url ps (attempt + 1) n' (sleeps @ [attempt + 1])))"
  by pat_completeness auto
termination
  by (relation "measure (\<lambda>(m, net, url, ps, attempt, n, sleeps). nat (m - int attempt))") auto

declare retry_loop.simps [simp del]

definition request_with_retry ::
  "int \<Rightarrow> network \<Rightarrow> string \<Rightarrow> params \<Rightarrow> nat \<Rightarrow> (error + response) \<times> nat \<times> nat list" where
  "request_with_retry MAX_RETRIES net url ps n = retry_loop MAX_RETRIES net url ps 0 n []"



text \<open>A server that answers every request with the same status and no body.\<close>

definition always_status :: "int \<Rightarrow> network" where
  "always_status s = (\<lambda>n req. Responds \<lparr>status_code = s, location = None, body = None\<rparr>)"


section \<open>Python operations on decoded JSON\<close>

text \<open>Truthiness, as \<^verbatim>\<open>or\<close>, \<^verbatim>\<open>not\<close> and \<^verbatim>\<open>if\<close> test it.\<close>

fun truthy :: "json \<Rightarrow> bool" where
  "truthy JNull = False"
| "truthy (JBool b) = b"
| "truthy (JInt i) = (i \<noteq> 0)"
| "truthy (JFloat q) = (q \<noteq> 0)"
| "truthy (JStr s) = (s \<noteq> [])"
| "truthy (JList xs) = (xs \<noteq> [])"
| "truthy (JDict d) = (d \<noteq> [])"

text \<open>\<^verbatim>\<open>d.get(k)\<close> on a dictionary: \<^verbatim>\<open>None\<close> for a missing key.\<close>

definition dict_get :: "(string \<times> json) list \<Rightarrow> string \<Rightarrow> json" where
  "dict_get d k = (case map_of d k of None \<Rightarrow> JNull | Some v \<Rightarrow> v)"

text \<open>\<^verbatim>\<open>a or b\<close>.\<close>

definition py_or :: "json \<Rightarrow> json \<Rightarrow> json" where
  "py_or a b = (if truthy a then a else b)"

text \<open>
  Python's \<^verbatim>\<open>==\<close>: booleans, integers and floats compare by numeric value, lists
  element by element, dictionaries by their keys and the values under them (the keys of a
  decoded dictionary are distinct).
\<close>

fun num_val :: "json \<Rightarrow> rat option" where
  "num_val (JBool b) = Some (if b then 1 else 0)"
| "num_val (JInt i) = Some (of_int i)"
| "num_val (JFloat q) = Some q"
| "num_val _ = None"

function py_eq :: "json \<Rightarrow> json \<Rightarrow> bool"
  and py_eq_list :: "json list \<Rightarrow> json list \<Rightarrow> bool"
  and py_eq_items :: "(string \<times> json) list \<Rightarrow> (string \<times> json) list \<Rightarrow> bool" where
  "py_eq a b =
     (case a of
        JNull \<Rightarrow> b = JNull
      | JStr s \<Rightarrow> b = JStr s
      | JList xs \<Rightarrow> (case b of JList ys \<Rightarrow> py_eq_list xs ys | _ \<Rightarrow> False)
      | JDict d \<Rightarrow>
          (case b of
             JDict e \<Rightarrow> set (map fst d) = set (map fst e) \<and> py_eq_items d e
           | _ \<Rightarrow> False)
      | _ \<Rightarrow> (case num_val b of None \<Rightarrow> False | Some y \<Rightarrow> num_val a = Some y))"
| "py_eq_list [] ys = (ys = [])"
| "py_eq_list (x # xs) ys =
     (case ys of [] \<Rightarrow> False | y # ys' \<Rightarrow> py_eq x y \<and> py_eq_list xs ys')"
| "py_eq_items [] e = True"
| "py_eq_items ((k, v) # d) e =
     (case map_of e k of None \<Rightarrow> False | Some w \<Rightarrow> py_eq v w \<and> py_eq_items d e)"
  by pat_completeness auto
termination
  by (relation "measure (\<lambda>x. case x of
        Inl (a, b) \<Rightarrow> size a
      | Inr (Inl (xs, ys)) \<Rightarrow> size_list size xs
      | Inr (Inr (d, e)) \<Rightarrow> size_list (size_prod (\<lambda>_. 0) size) d)") auto

section \<open>The dual-mode pagination cursor\<close>

definition BASE :: string where
  "BASE = ''https://api.ordoro.com''"

text \<open>The local variables of \<^verbatim>\<open>iter_products_batches\<close> (lines 106-109).\<close>

record cursor =
  offset :: int
  last_first_id :: json
  use_page_mode :: bool
  page :: int

definition initial_cursor :: cursor where
  "initial_cursor = \<lparr>offset = 0, last_first_id = JNull, use_page_mode = False, page = 1\<rparr>"

text \<open>
  Lines 118-121: the first of the keys, in order, that is in the payload with a list
  value gives the batch; the batch stays empty when there is none.
\<close>

fun probe_keys :: "string list \<Rightarrow> (string \<times> json) list \<Rightarrow> json list" where
  "probe_keys [] d = []"
| "probe_keys (k # ks) d =
     (case map_of d k of
        Some (JList xs) \<Rightarrow> xs
      | _ \<Rightarrow> probe_keys ks d)"

text \<open>Lines 115-125.\<close>

definition extract_batch :: "json \<Rightarrow> json list" where
  "extract_batch data =
     (case data of
        JDict d \<Rightarrow>
          (let batch = probe_keys [''product'', ''products'', ''results'', ''data'', ''items''] d
           in if batch = [] \<and> d \<noteq> [] then [data] else batch)
      | JList xs \<Rightarrow> xs
      | _ \<Rightarrow> [])"

text \<open>
  Line 131, \<^verbatim>\<open>(batch[0] or {}).get("id")\<close>: a falsy first record gives \<^verbatim>\<open>None\<close>, and a
  truthy one that is not a dictionary has no \<^verbatim>\<open>get\<close>.
\<close>

definition first_id_of :: "json \<Rightarrow> error + json" where
  "first_id_of x =
     (if truthy x then (case x of JDict d \<Rightarrow> Inr (dict_get d ''id'') | _ \<Rightarrow> Inl AttributeError)
      else Inr JNull)"

text \<open>
  What one iteration of the loop (lines 111-147) does: it ends the generator, raises,
  switches to page mode and goes on without a yield, or yields a batch and then ends
  or goes on.
\<close>

datatype step =
    Stop
  | Raise error
  | Switch cursor
  | YieldStop "json list"
  | YieldGo "json list" cursor

definition request_params :: "int \<Rightarrow> cursor \<Rightarrow> params" where
  "request_params limit_each c =
     \<lparr>limit = limit_each,
      selector = (if use_page_mode c then ByPage (page c) else ByOffset (offset c))\<rparr>"

text \<open>Lines 115-147 on the decoded payload.\<close>

definition handle_data :: "int \<Rightarrow> cursor \<Rightarrow> json \<Rightarrow> step" where
  "handle_data limit_each c data =
     (let batch = extract_batch data in
      if batch = [] then Stop
      else
        (case first_id_of (hd batch) of
           Inl e \<Rightarrow> Raise e
         | Inr first_id \<Rightarrow>
             if \<not> use_page_mode c \<and> last_first_id c \<noteq> JNull \<and> py_eq first_id (last_first_id c)
             then
               (if limit_each = 0 then Raise ZeroDivisionError
                else Switch (c\<lparr>use_page_mode := True, page := offset c div limit_each + 2\<rparr>))
             else if int (length batch) < limit_each then YieldStop batch
             else if use_page_mode c then YieldGo batch (c\<lparr>page := page c + 1\<rparr>)
             else YieldGo batch
                    (c\<lparr>offset := offset c + int (length batch), last_first_id := first_id\<rparr>)))"

text \<open>
  One iteration, started when \<open>n\<close> calls have been made on the network: the request
  of line 113, \<^verbatim>\<open>r.json()\<close> (which raises when the body is not JSON), then the rest.
\<close>

definition cursor_step :: "int \<Rightarrow> network \<Rightarrow> int \<Rightarrow> cursor \<Rightarrow> nat \<Rightarrow> step \<times> nat" where
  "cursor_step MAX_RETRIES net limit_each c n =
     (case request_with_retry MAX_RETRIES net (BASE @ ''/product/'') (request_params limit_each c) n of
        (Inl e, n', sleeps) \<Rightarrow> (Raise e, n')
      | (Inr r, n', sleeps) \<Rightarrow>
          (case body r of
             None \<Rightarrow> (Raise JSONDecodeError, n')
           | Some data \<Rightarrow> (handle_data limit_each c data, n')))"

text \<open>
  The generator, consumed to its end. The trace lists every request made, every batch
  yielded and every switch to page mode, in order. The loop need not end, so the run
  takes fuel: one unit for each iteration.
\<close>

datatype event = Requested params | Yielded "json list" | Switched int

datatype outcome = Finished | Raised error | OutOfFuel

fun run_cursor :: "int \<Rightarrow> network \<Rightarrow> int \<Rightarrow> nat \<Rightarrow> cursor \<Rightarrow> nat \<Rightarrow> event list \<times> outcome" where
  "run_cursor MAX_RETRIES net limit_each 0 c n = ([], OutOfFuel)"
| "run_cursor MAX_RETRIES net limit_each (Suc fuel) c n =
     (let req = Requested (request_params limit_each c) in
      case cursor_step MAX_RETRIES net limit_each c n of
        (Stop, n') \<Rightarrow> ([req], Finished)
      | (Raise e, n') \<Rightarrow> ([req], Raised e)
      | (Switch c', n') \<Rightarrow>
          (let (evs, out) = run_cursor MAX_RETRIES net limit_each fuel c' n'
           in (req # Switched (page c') # evs, out))
      | (YieldStop batch, n') \<Rightarrow> ([req, Yielded batch], Finished)
      | (YieldGo batch c', n') \<Rightarrow>
          (let (evs, out) = run_cursor MAX_RETRIES net limit_each fuel c' n'
           in (req # Yielded batch # evs, out)))"

definition iter_products_batches :: "int \<Rightarrow> network \<Rightarrow> int \<Rightarrow> nat \<Rightarrow> event list \<times> outcome" where
  "iter_products_batches MAX_RETRIES net limit_each fuel =
     run_cursor MAX_RETRIES net limit_each fuel initial_cursor 0"

text \<open>
  What the offset-mode cursor keeps for a positive limit: once a first id is remembered,
  the offset has been advanced by a full batch.
\<close>

definition offset_inv :: "int \<Rightarrow> cursor \<Rightarrow> bool" where
  "offset_inv l c \<longleftrightarrow>
     use_page_mode c \<or> (0 \<le> offset c \<and> (last_first_id c = JNull \<or> l \<le> offset c))"

text \<open>The batches a trace yields, in order.\<close>

fun yielded :: "event list \<Rightarrow> json list list" where
  "yielded [] = []"
| "yielded (Yielded b # evs) = b # yielded evs"
| "yielded (_ # evs) = yielded evs"

text \<open>
  Synthetic sources over a fixed list of records. A page of the list: \<^verbatim>\<open>offset\<close>
  counts records, \<^verbatim>\<open>page\<close> counts pages from 1.
\<close>

definition page_of :: "json list \<Rightarrow> params \<Rightarrow> json list" where
  "page_of recs ps =
     (case selector ps of
        ByOffset k \<Rightarrow> take (nat (limit ps)) (drop (nat k) recs)
      | ByPage p \<Rightarrow> take (nat (limit ps)) (drop (nat ((p - 1) * limit ps)) recs))"

text \<open>A record that has only an id.\<close>

definition rec_id :: "int \<Rightarrow> json" where
  "rec_id i = JDict [(''id'', JInt i)]"

definition ok_response :: "json \<Rightarrow> reply" where
  "ok_response data = Responds \<lparr>status_code = 200, location = None, body = Some data\<rparr>"

text \<open>A source that answers with the bare list of the records of the page.\<close>

definition list_source :: "json list \<Rightarrow> network" where
  "list_source recs =
     (\<lambda>n (url, q). case q of
        None \<Rightarrow> Fails
      | Some ps \<Rightarrow> ok_response (JList (page_of recs ps)))"

text \<open>
  A source that answers as the Ordoro API does, with the batch under the key
  \<^verbatim>\<open>product\<close> of a dictionary.
\<close>

definition wrapped_source :: "json list \<Rightarrow> network" where
  "wrapped_source recs =
     (\<lambda>n (url, q). case q of
        None \<Rightarrow> Fails
      | Some ps \<Rightarrow> ok_response (JDict [(''product'', JList (page_of recs ps))]))"

text \<open>
  A source whose offset pagination has stalled: every offset request gets the first
  page again, and page requests are answered properly.
\<close>

definition stalled_source :: "json list \<Rightarrow> network" where
  "stalled_source recs =
     (\<lambda>n (url, q). case q of
        None \<Rightarrow> Fails
      | Some ps \<Rightarrow>
          (case selector ps of
             ByOffset k \<Rightarrow> ok_response (JList (take (nat (limit ps)) recs))
           | ByPage p \<Rightarrow> ok_response (JList (page_of recs ps))))"

section \<open>Text cleaning and field mapping\<close>

text \<open>
  Python's \<^verbatim>\<open>str\<close> on a string is the string itself. Its rendering of every other
  value (numbers, booleans, the \<^verbatim>\<open>repr\<close> of lists and dictionaries) is library code
  and is the parameter \<open>rp\<close> of the functions below.
\<close>

definition py_str :: "(json \<Rightarrow> string) \<Rightarrow> json \<Rightarrow> string" where
  "py_str rp x = (case x of JStr s \<Rightarrow> s | _ \<Rightarrow> rp x)"

text \<open>\<^verbatim>\<open>s.replace(c, r)\<close> for a pattern of one character.\<close>

definition replace_char :: "char \<Rightarrow> string \<Rightarrow> string \<Rightarrow> string" where
  "replace_char c r s = concat (map (\<lambda>x. if x = c then r else [x]) s)"

text \<open>The full-width colon U+FF1A, in UTF-8.\<close>

definition FULLWIDTH_COLON :: string where
  "FULLWIDTH_COLON = [CHR 0xEF, CHR 0xBC, CHR 0x9A]"

definition safe_str :: "(json \<Rightarrow> string) \<Rightarrow> json \<Rightarrow> string" where
  "safe_str rp x =
     (let s = (if x \<noteq> JNull then py_str rp x else [])
      in replace_char CHR '':'' FULLWIDTH_COLON (replace_char CHR ''|'' ''/'' s))"

text \<open>\<^verbatim>\<open>sep.join(out)\<close>.\<close>

fun join :: "string \<Rightarrow> string list \<Rightarrow> string" where
  "join sep [] = []"
| "join sep [x] = x"
| "join sep (x # y # ys) = x @ sep @ join sep (y # ys)"

text \<open>\<^verbatim>\<open>s.split(c)\<close> for a separator of one character.\<close>

fun split_on :: "char \<Rightarrow> string \<Rightarrow> string list" where
  "split_on c [] = [[]]"
| "split_on c (x # xs) =
     (if x = c then [] # split_on c xs
      else (case split_on c xs of [] \<Rightarrow> [[x]] | y # ys \<Rightarrow> (x # y) # ys))"

text \<open>\<^verbatim>\<open>s.strip(c)\<close> for one character.\<close>

definition strip_char :: "char \<Rightarrow> string \<Rightarrow> string" where
  "strip_char c s = rev (dropWhile (\<lambda>x. x = c) (rev (dropWhile (\<lambda>x. x = c) s)))"

text \<open>
  \<^verbatim>\<open>d.get(k1) or d.get(k2) or ... or d.get(kn)\<close>: the first truthy value, and the last
  value when none is truthy.
\<close>

fun get_first :: "(string \<times> json) list \<Rightarrow> string list \<Rightarrow> json" where
  "get_first d [] = JNull"
| "get_first d [k] = dict_get d k"
| "get_first d (k # k' # ks) =
     (if truthy (dict_get d k) then dict_get d k else get_first d (k' # ks))"

text \<open>The text of one element of a list of tags (lines 158-162).\<close>

definition tag_text :: "(json \<Rightarrow> string) \<Rightarrow> json \<Rightarrow> string" where
  "tag_text rp t =
     (case t of
        JStr s \<Rightarrow> safe_str rp t
      | JDict d \<Rightarrow>
          (let v = get_first d [''name'', ''label'', ''tag'', ''value'', ''title'']
           in safe_str rp (case v of JStr s \<Rightarrow> v | _ \<Rightarrow> t))
      | _ \<Rightarrow> safe_str rp t)"

text \<open>The list \<^verbatim>\<open>out\<close> of \<^verbatim>\<open>_join_tags\<close> before it is joined.\<close>

definition join_tags_out :: "(json \<Rightarrow> string) \<Rightarrow> json \<Rightarrow> string list" where
  "join_tags_out rp tags_obj =
     (case tags_obj of
        JList ts \<Rightarrow> map (tag_text rp) ts
      | JDict d \<Rightarrow>
          (let v = get_first d [''name'', ''label'', ''tag'', ''value'', ''title'']
           in if truthy v then [safe_str rp v] else [])
      | JStr s \<Rightarrow> [safe_str rp tags_obj]
      | _ \<Rightarrow> [])"

definition join_tags :: "(json \<Rightarrow> string) \<Rightarrow> json \<Rightarrow> string" where
  "join_tags rp tags_obj = join ''|'' (join_tags_out rp tags_obj)"

text \<open>Line 176 and line 181: \<^verbatim>\<open>f"{_safe_str(vendor)}:{_safe_str(name)}".strip(":")\<close>.\<close>

definition vendor_name :: "(json \<Rightarrow> string) \<Rightarrow> json \<Rightarrow> json \<Rightarrow> string" where
  "vendor_name rp vendor name = strip_char CHR '':'' (safe_str rp vendor @ '':'' @ safe_str rp name)"

text \<open>The text of one element of a list of carts (lines 173-177).\<close>

definition cart_text :: "(json \<Rightarrow> string) \<Rightarrow> json \<Rightarrow> string" where
  "cart_text rp c =
     (case c of
        JDict d \<Rightarrow>
          vendor_name rp
            (py_or (get_first d [''vendor'', ''channel'', ''platform'', ''site'']) (JStr []))
            (py_or (get_first d [''name'', ''store'', ''account'']) (JStr []))
      | _ \<Rightarrow> safe_str rp c)"

text \<open>
  The list \<^verbatim>\<open>out\<close> of \<^verbatim>\<open>_join_carts\<close>. In the branch for a single dictionary
  (lines 178-181) the fallbacks read the variable \<^verbatim>\<open>c\<close>, which is local to the function
  and bound only by the loop of the list branch: when \<^verbatim>\<open>carts_obj.get("vendor")\<close> is
  falsy, or else when \<^verbatim>\<open>carts_obj.get("name")\<close> is falsy, evaluating \<^verbatim>\<open>c.get\<close> raises
  \<^verbatim>\<open>UnboundLocalError\<close>.
\<close>

definition join_carts_out :: "(json \<Rightarrow> string) \<Rightarrow> json \<Rightarrow> error + string list" where
  "join_carts_out rp carts_obj =
     (case carts_obj of
        JList cs \<Rightarrow> Inr (map (cart_text rp) cs)
      | JDict d \<Rightarrow>
          if \<not> truthy (dict_get d ''vendor'') then Inl UnboundLocalError
          else if \<not> truthy (dict_get d ''name'') then Inl UnboundLocalError
          else Inr [vendor_name rp (dict_get d ''vendor'') (dict_get d ''name'')]
      | JStr s \<Rightarrow> Inr [safe_str rp carts_obj]
      | _ \<Rightarrow> Inr [])"

definition join_carts :: "(json \<Rightarrow> string) \<Rightarrow> json \<Rightarrow> error + string" where
  "join_carts rp carts_obj =
     (case join_carts_out rp carts_obj of Inl e \<Rightarrow> Inl e | Inr out \<Rightarrow> Inr (join ''|'' out))"

text \<open>
  What the claim says \<^verbatim>\<open>_join_carts\<close> returns for a single dictionary: the text the
  list branch gives for one element.
\<close>

definition join_carts_spec :: "(json \<Rightarrow> string) \<Rightarrow> (string \<times> json) list \<Rightarrow> string" where
  "join_carts_spec rp d = cart_text rp (JDict d)"

definition FILTER_ARCHIVED :: bool where
  "FILTER_ARCHIVED = False"

definition is_archived_like :: "(string \<times> json) list \<Rightarrow> bool" where
  "is_archived_like p = truthy (get_first p [''archived'', ''is_archived'', ''deleted'', ''is_deleted''])"

text \<open>The columns of a row that are read straight from the raw record, with the key of each.\<close>

definition PRODUCT_FIELDS :: "(string \<times> string) list" where
  "PRODUCT_FIELDS =
     [(''PRODUCT_ID'', ''id''), (''SKU'', ''sku''), (''NAME'', ''name''), (''PRICE'', ''price''),
      (''COST'', ''cost''), (''UPC'', ''upc''), (''ASIN'', ''asin''),
      (''COUNTRY'', ''country_of_origin''), (''UPDATED'', ''updated''),
      (''TOTAL_ON_HAND'', ''total_on_hand''), (''TOTAL_AVAILABLE'', ''total_available''),
      (''TOTAL_COMMITTED'', ''total_committed''), (''TOTAL_ALLOCATED'', ''total_allocated''),
      (''TOTAL_UNALLOCATED'', ''total_unallocated''), (''TOTAL_MFG_ORDERED'', ''total_mfg_ordered''),
      (''TO_BE_SHIPPED'', ''to_be_shipped''), (''HEIGHT'', ''height''), (''WEIGHT'', ''weight''),
      (''WIDTH'', ''width'')]"

definition WAREHOUSE_FIELDS :: "(string \<times> string) list" where
  "WAREHOUSE_FIELDS =
     [(''WH_ID'', ''id''), (''WH_NAME'', ''warehouse_name''), (''WH_UPDATED'', ''updated''),
      (''WH_CREATED'', ''warehouse_created_date''), (''WH_LAST_CHANGE'', ''warehouse_updated_date''),
      (''LOW_STOCK_THTD'', ''low_stock_threshold''), (''OOS_THTD'', ''out_of_stock_threshold''),
      (''POH'', ''physical_on_hand''), (''AOH'', ''available''), (''CMT'', ''committed''),
      (''OMO'', ''mfg_ordered''), (''OPO'', ''po_committed''), (''ON_HAND'', ''on_hand''),
      (''ALLOCATED'', ''allocated''), (''UNALLOCATED'', ''unallocated''),
      (''WH_SHIP_CFG'', ''is_configured_for_shipping''), (''WH_IS_DEFAULT'', ''is_default_location''),
      (''LOCATION'', ''location_in_warehouse'')]"

definition read_fields :: "(string \<times> string) list \<Rightarrow> (string \<times> json) list \<Rightarrow> (string \<times> json) list" where
  "read_fields fs d = map (\<lambda>(col, key). (col, dict_get d key)) fs"

text \<open>
  \<^verbatim>\<open>base_product_cols\<close>: \<^verbatim>\<open>None\<close> for a filtered product, else the flat row, whose
  values are evaluated in order, so that \<^verbatim>\<open>_join_carts\<close> may raise.
\<close>

definition base_product_cols ::
  "(json \<Rightarrow> string) \<Rightarrow> (string \<times> json) list \<Rightarrow> error + (string \<times> json) list option" where
  "base_product_cols rp p =
     (if FILTER_ARCHIVED \<and> is_archived_like p then Inr None
      else
        (case join_carts rp (py_or (dict_get p ''carts'') (JList [])) of
           Inl e \<Rightarrow> Inl e
         | Inr carts \<Rightarrow>
             Inr (Some (read_fields PRODUCT_FIELDS p @
                        [(''TAGS'', JStr (join_tags rp (dict_get p ''tags''))),
                         (''CARTS'', JStr carts)]))))"

text \<open>
  \<^verbatim>\<open>for w in x\<close>: a list gives its elements, a dictionary its keys, a string its
  characters (here one string for each byte; line 219 skips them all), and any other
  value is not iterable.
\<close>

definition py_iter :: "json \<Rightarrow> error + json list" where
  "py_iter x =
     (case x of
        JList xs \<Rightarrow> Inr xs
      | JDict d \<Rightarrow> Inr (map (\<lambda>kv. JStr (fst kv)) d)
      | JStr s \<Rightarrow> Inr (map (\<lambda>c. JStr [c]) s)
      | _ \<Rightarrow> Inl TypeError)"

definition warehouse_row :: "(string \<times> json) list \<Rightarrow> json \<Rightarrow> (string \<times> json) list list" where
  "warehouse_row base w =
     (case w of JDict wd \<Rightarrow> [base @ read_fields WAREHOUSE_FIELDS wd] | _ \<Rightarrow> [])"

definition rows_for_warehouses ::
  "(json \<Rightarrow> string) \<Rightarrow> (string \<times> json) list \<Rightarrow> error + (string \<times> json) list list" where
  "rows_for_warehouses rp p =
     (case base_product_cols rp p of
        Inl e \<Rightarrow> Inl e
      | Inr None \<Rightarrow> Inr []
      | Inr (Some base) \<Rightarrow>
          (case py_iter (py_or (dict_get p ''warehouses'') (JList [])) of
             Inl e \<Rightarrow> Inl e
           | Inr ws \<Rightarrow> Inr (concat (map (warehouse_row base) ws))))"

section \<open>Deduplication in the main loop\<close>

text \<open>
  The members of \<^verbatim>\<open>seen_pid\<close> and the components of the keys of \<^verbatim>\<open>seen_wh\<close>. A set
  tells its members apart by \<^verbatim>\<open>hash\<close> and \<^verbatim>\<open>==\<close>: \<^verbatim>\<open>None\<close>, the numbers by their value
  (so \<^verbatim>\<open>True\<close>, \<^verbatim>\<open>1\<close> and \<^verbatim>\<open>1.0\<close> are one member) and the strings. A list or a dictionary
  is not hashable, and testing its membership raises \<^verbatim>\<open>TypeError\<close>.
\<close>

datatype hkey = KNone | KNum rat | KStr string

definition hash_key :: "json \<Rightarrow> error + hkey" where
  "hash_key x =
     (case x of
        JNull \<Rightarrow> Inr KNone
      | JBool b \<Rightarrow> Inr (KNum (if b then 1 else 0))
      | JInt i \<Rightarrow> Inr (KNum (of_int i))
      | JFloat q \<Rightarrow> Inr (KNum q)
      | JStr s \<Rightarrow> Inr (KStr s)
      | JList xs \<Rightarrow> Inl TypeError
      | JDict d \<Rightarrow> Inl TypeError)"

type_synonym row = "(string \<times> json) list"
type_synonym wh_key = "hkey \<times> hkey \<times> string"

text \<open>
  The variables of \<^verbatim>\<open>main\<close> that the loop over the products of a batch changes
  (lines 328 and 334).
\<close>

record dedup =
  seen_pid :: "hkey set"
  seen_wh :: "wh_key set"
  prod_rows :: "row list"
  wh_rows :: "row list"

text \<open>Line 344: the key of a warehouse row.\<close>

definition wh_row_key :: "(json \<Rightarrow> string) \<Rightarrow> row \<Rightarrow> error + wh_key" where
  "wh_row_key rp r =
     (case hash_key (dict_get r ''PRODUCT_ID'') of
        Inl e \<Rightarrow> Inl e
      | Inr a \<Rightarrow>
          (case hash_key (dict_get r ''WH_ID'') of
             Inl e \<Rightarrow> Inl e
           | Inr b \<Rightarrow> Inr (a, b, py_str rp (dict_get r ''WH_UPDATED''))))"

text \<open>Lines 343-346: the loop over the warehouse rows of one product.\<close>

fun admit_wh_rows :: "(json \<Rightarrow> string) \<Rightarrow> row list \<Rightarrow> dedup \<Rightarrow> error + dedup" where
  "admit_wh_rows rp [] st = Inr st"
| "admit_wh_rows rp (r # rs) st =
     (case wh_row_key rp r of
        Inl e \<Rightarrow> Inl e
      | Inr key \<Rightarrow>
          if key \<notin> seen_wh st
          then admit_wh_rows rp rs (st\<lparr>seen_wh := insert key (seen_wh st), wh_rows := wh_rows st @ [r]\<rparr>)
          else admit_wh_rows rp rs st)"

text \<open>Lines 339-342: the product row of one product whose id has the key \<open>k\<close>.\<close>

definition admit_product :: "(json \<Rightarrow> string) \<Rightarrow> hkey \<Rightarrow> (string \<times> json) list \<Rightarrow> dedup \<Rightarrow> error + dedup" where
  "admit_product rp k p st =
     (if k \<notin> seen_pid st then
        (case base_product_cols rp p of
           Inl e \<Rightarrow> Inl e
         | Inr None \<Rightarrow> Inr st
         | Inr (Some row) \<Rightarrow>
             Inr (st\<lparr>seen_pid := insert k (seen_pid st), prod_rows := prod_rows st @ [row]\<rparr>))
      else Inr st)"

text \<open>
  Lines 336-346, the body of the loop for one element of the batch. An element that is
  not a dictionary has no \<^verbatim>\<open>get\<close>.
\<close>

definition process_product :: "(json \<Rightarrow> string) \<Rightarrow> json \<Rightarrow> dedup \<Rightarrow> error + dedup" where
  "process_product rp p st =
     (case p of
        JDict d \<Rightarrow>
          (let pid = dict_get d ''id'' in
           if pid = JNull then Inr st
           else
             (case hash_key pid of
                Inl e \<Rightarrow> Inl e
              | Inr k \<Rightarrow>
                  (case admit_product rp k d st of
                     Inl e \<Rightarrow> Inl e
                   | Inr st' \<Rightarrow>
                       (case rows_for_warehouses rp d of
                          Inl e \<Rightarrow> Inl e
                        | Inr rs \<Rightarrow> admit_wh_rows rp rs st'))))
      | _ \<Rightarrow> Inl AttributeError)"

fun process_products :: "(json \<Rightarrow> string) \<Rightarrow> json list \<Rightarrow> dedup \<Rightarrow> error + dedup" where
  "process_products rp [] st = Inr st"
| "process_products rp (p # ps) st =
     (case process_product rp p st of
        Inl e \<Rightarrow> Inl e
      | Inr st' \<Rightarrow> process_products rp ps st')"

text \<open>
  The loop over the batches (lines 332-346) for the batches the generator yields: each
  batch starts with empty \<^verbatim>\<open>prod_rows\<close> and \<^verbatim>\<open>wh_rows\<close> and keeps the two sets. The
  result lists, for each batch, the product rows and the warehouse rows admitted.
\<close>

fun process_batches ::
  "(json \<Rightarrow> string) \<Rightarrow> json list list \<Rightarrow> hkey set \<times> wh_key set
     \<Rightarrow> error + (row list \<times> row list) list" where
  "process_batches rp [] seen = Inr []"
| "process_batches rp (batch # batches) seen =
     (case process_products rp batch
             \<lparr>seen_pid = fst seen, seen_wh = snd seen, prod_rows = [], wh_rows = []\<rparr> of
        Inl e \<Rightarrow> Inl e
      | Inr st \<Rightarrow>
          (case process_batches rp batches (seen_pid st, seen_wh st) of
             Inl e \<Rightarrow> Inl e
           | Inr outs \<Rightarrow> Inr ((prod_rows st, wh_rows st) # outs)))"

text \<open>The loop of \<^verbatim>\<open>main\<close> from the empty sets of line 328.\<close>

definition main_loop :: "(json \<Rightarrow> string) \<Rightarrow> json list list \<Rightarrow> error + (row list \<times> row list) list" where
  "main_loop rp batches = process_batches rp batches ({}, {})"

text \<open>
  First-seen-wins, as the data model states it: of the elements with the same key only
  the first is kept.
\<close>

fun first_seen :: "('a \<Rightarrow> 'k) \<Rightarrow> 'a list \<Rightarrow> 'a list" where
  "first_seen f [] = []"
| "first_seen f (x # xs) = x # first_seen f (filter (\<lambda>y. f y \<noteq> f x) xs)"

text \<open>The key of a product row in \<^verbatim>\<open>seen_pid\<close>: its \<^verbatim>\<open>PRODUCT_ID\<close>.\<close>

definition product_key :: "row \<Rightarrow> error + hkey" where
  "product_key r = hash_key (dict_get r ''PRODUCT_ID'')"

text \<open>
  The rows that the loop body offers for admission for one element of a batch: the
  product row and the warehouse rows of a record that has an id.
\<close>

definition candidate_product_rows :: "(json \<Rightarrow> string) \<Rightarrow> json \<Rightarrow> row list" where
  "candidate_product_rows rp p =
     (case p of
        JDict d \<Rightarrow>
          if dict_get d ''id'' = JNull then []
          else (case base_product_cols rp d of Inr (Some r) \<Rightarrow> [r] | _ \<Rightarrow> [])
      | _ \<Rightarrow> [])"

definition candidate_wh_rows :: "(json \<Rightarrow> string) \<Rightarrow> json \<Rightarrow> row list" where
  "candidate_wh_rows rp p =
     (case p of
        JDict d \<Rightarrow>
          if dict_get d ''id'' = JNull then []
          else (case rows_for_warehouses rp d of Inr rs \<Rightarrow> rs | _ \<Rightarrow> [])
      | _ \<Rightarrow> [])"

text \<open>First-seen-wins among the elements whose key is not yet in a set.\<close>

definition fresh :: "('a \<Rightarrow> 'k) \<Rightarrow> 'k set \<Rightarrow> 'a list \<Rightarrow> 'a list" where
  "fresh f S xs = first_seen f (filter (\<lambda>x. f x \<notin> S) xs)"

text \<open>A product with the same warehouse entry twice.\<close>

definition example_warehouse :: "(string \<times> json) list" where
  "example_warehouse = [(''id'', JInt 5), (''updated'', JStr ''2024-01-01'')]"

definition example_product :: "(string \<times> json) list" where
  "example_product =
     [(''id'', JInt 7), (''sku'', JStr ''A-1''),
      (''warehouses'', JList [JDict example_warehouse, JDict example_warehouse])]"

definition example_row :: row where
  "example_row = read_fields PRODUCT_FIELDS example_product @ [(''TAGS'', JStr []), (''CARTS'', JStr [])]"

section \<open>The cleaning stage\<close>

text \<open>
  A numeric value of a pandas column: not-a-number, a finite value (kept exactly) or an
  infinity (\<open>True\<close> for the positive one).
\<close>

datatype number = NaN | Finite rat | Infinite bool

text \<open>
  A cell of a data frame: a Python object as it was put in, a numeric value, or a value
  of one of the nullable types the cleaning casts to, where \<open>None\<close> is the missing
  value (\<^verbatim>\<open><NA>\<close>, \<^verbatim>\<open>NaT\<close>). A timestamp is a count of nanoseconds.
\<close>

datatype cell =
    Obj json
  | Float number
  | Int64 "int option"
  | Datetime "int option"
  | Boolean "bool option"

text \<open>\<^verbatim>\<open>pd.isna\<close>.\<close>

fun is_null :: "cell \<Rightarrow> bool" where
  "is_null (Obj v) = (v = JNull)"
| "is_null (Float x) = (x = NaN)"
| "is_null (Int64 v) = (v = None)"
| "is_null (Datetime v) = (v = None)"
| "is_null (Boolean v) = (v = None)"

text \<open>
  A data frame: the number of rows and the columns in order, each with its label and
  its values. The labels of a frame are distinct and every column has one value for each
  row, as in every frame that \<^verbatim>\<open>pd.DataFrame\<close> builds.
\<close>

record dataframe =
  nrows :: nat
  cols :: "(string \<times> cell list) list"

definition wf_frame :: "dataframe \<Rightarrow> bool" where
  "wf_frame df \<longleftrightarrow>
     distinct (map fst (cols df)) \<and> list_all (\<lambda>col. length (snd col) = nrows df) (cols df)"

text \<open>
  The conversions of pandas that the cleaning calls on a column. They are library code
  and are parameters of the model. Each one gets the column and either raises or gives
  the converted value at every index, so the converted column has the index of the
  original one:
  \<^item> \<^verbatim>\<open>pd.to_numeric(col, errors="coerce")\<close>, where \<open>NaN\<close> is the result for a value
    that does not parse;
  \<^item> \<^verbatim>\<open>pd.to_datetime(col, errors="coerce")\<close>;
  \<^item> \<^verbatim>\<open>col.dt.tz_convert("UTC")\<close> and \<^verbatim>\<open>col.dt.tz_localize(None)\<close>;
  \<^item> \<^verbatim>\<open>col.astype("boolean")\<close>;
  \<^item> and \<^verbatim>\<open>round(2)\<close> on one floating-point value.
\<close>

record pandas =
  to_numeric :: "cell list \<Rightarrow> error + (nat \<Rightarrow> number)"
  to_datetime :: "cell list \<Rightarrow> error + (nat \<Rightarrow> cell)"
  tz_convert_utc :: "cell list \<Rightarrow> error + (nat \<Rightarrow> cell)"
  tz_localize_none :: "cell list \<Rightarrow> error + (nat \<Rightarrow> cell)"
  astype_boolean :: "cell list \<Rightarrow> error + (nat \<Rightarrow> cell)"
  round2 :: "number \<Rightarrow> number"

text \<open>The column with the value \<open>f i\<close> at each index \<open>i\<close> of \<open>col\<close>.\<close>

definition series :: "'a list \<Rightarrow> (nat \<Rightarrow> 'b) \<Rightarrow> 'b list" where
  "series col f = map f [0..<length col]"

definition convert :: "('a list \<Rightarrow> error + (nat \<Rightarrow> 'b)) \<Rightarrow> 'a list \<Rightarrow> error + 'b list" where
  "convert f col = (case f col of Inl e \<Rightarrow> Inl e | Inr g \<Rightarrow> Inr (series col g))"

text \<open>\<^verbatim>\<open>fillna(0)\<close> and \<^verbatim>\<open>round(0)\<close> (to the nearest integer, a tie to the even one).\<close>

definition fillna0 :: "number \<Rightarrow> number" where
  "fillna0 x = (case x of NaN \<Rightarrow> Finite 0 | _ \<Rightarrow> x)"

definition round_half_even :: "rat \<Rightarrow> int" where
  "round_half_even q =
     (let f = \<lfloor>q\<rfloor>; d = q - of_int f
      in if d < 1 / 2 then f else if 1 / 2 < d then f + 1 else if even f then f else f + 1)"

definition round0 :: "number \<Rightarrow> number" where
  "round0 x = (case x of Finite q \<Rightarrow> Finite (of_int (round_half_even q)) | _ \<Rightarrow> x)"

text \<open>
  \<^verbatim>\<open>astype("Int64")\<close> on a numeric column: \<open>NaN\<close> becomes the missing value, a finite
  value must be a whole number in the 64-bit range or the cast raises \<^verbatim>\<open>TypeError\<close>, and
  an infinity raises \<^verbatim>\<open>OverflowError\<close>.
\<close>

definition to_Int64 :: "number \<Rightarrow> error + cell" where
  "to_Int64 x =
     (case x of
        NaN \<Rightarrow> Inr (Int64 None)
      | Infinite b \<Rightarrow> Inl OverflowError
      | Finite q \<Rightarrow>
          if of_int \<lfloor>q\<rfloor> = q \<and> - (2 ^ 63) \<le> \<lfloor>q\<rfloor> \<and> \<lfloor>q\<rfloor> < 2 ^ 63 then Inr (Int64 (Some \<lfloor>q\<rfloor>))
          else Inl TypeError)"

fun astype_Int64 :: "number list \<Rightarrow> error + cell list" where
  "astype_Int64 [] = Inr []"
| "astype_Int64 (x # xs) =
     (case to_Int64 x of
        Inl e \<Rightarrow> Inl e
      | Inr c \<Rightarrow> (case astype_Int64 xs of Inl e \<Rightarrow> Inl e | Inr cs \<Rightarrow> Inr (c # cs)))"

text \<open>\<^verbatim>\<open>_strip_tz\<close> (lines 251-255).\<close>

definition strip_tz :: "pandas \<Rightarrow> cell list \<Rightarrow> cell list" where
  "strip_tz pd s =
     (case (case convert (tz_convert_utc pd) s of
              Inl e \<Rightarrow> Inl e
            | Inr u \<Rightarrow> convert (tz_localize_none pd) u) of
        Inr r \<Rightarrow> r
      | Inl e \<Rightarrow> (case convert (tz_localize_none pd) s of Inr r \<Rightarrow> r | Inl e' \<Rightarrow> s))"

text \<open>The right-hand sides of the column assignments of lines 260-266 and 273-281.\<close>

definition clean_timestamp :: "pandas \<Rightarrow> cell list \<Rightarrow> error + cell list" where
  "clean_timestamp pd col =
     (case convert (to_datetime pd) col of Inl e \<Rightarrow> Inl e | Inr s \<Rightarrow> Inr (strip_tz pd s))"

definition clean_currency :: "pandas \<Rightarrow> cell list \<Rightarrow> error + cell list" where
  "clean_currency pd col =
     (case convert (to_numeric pd) col of
        Inl e \<Rightarrow> Inl e
      | Inr xs \<Rightarrow> Inr (map (\<lambda>x. Float (round2 pd x)) xs))"

definition clean_quantity :: "pandas \<Rightarrow> cell list \<Rightarrow> error + cell list" where
  "clean_quantity pd col =
     (case convert (to_numeric pd) col of
        Inl e \<Rightarrow> Inl e
      | Inr xs \<Rightarrow> astype_Int64 (map (\<lambda>x. round0 (fillna0 x)) xs))"

definition clean_numeric :: "pandas \<Rightarrow> cell list \<Rightarrow> error + cell list" where
  "clean_numeric pd col =
     (case convert (to_numeric pd) col of Inl e \<Rightarrow> Inl e | Inr xs \<Rightarrow> Inr (map Float xs))"

definition clean_flag :: "pandas \<Rightarrow> cell list \<Rightarrow> error + cell list" where
  "clean_flag pd col = convert (astype_boolean pd) col"

text \<open>\<^verbatim>\<open>df.empty\<close>, \<^verbatim>\<open>c in df.columns\<close>, \<^verbatim>\<open>df[c]\<close> and \<^verbatim>\<open>df[c] = new\<close>.\<close>

definition empty_frame :: "dataframe \<Rightarrow> bool" where
  "empty_frame df \<longleftrightarrow> nrows df = 0 \<or> cols df = []"

definition has_column :: "dataframe \<Rightarrow> string \<Rightarrow> bool" where
  "has_column df c \<longleftrightarrow> c \<in> fst ` set (cols df)"

definition column :: "dataframe \<Rightarrow> string \<Rightarrow> cell list" where
  "column df c = (case map_of (cols df) c of None \<Rightarrow> [] | Some col \<Rightarrow> col)"

definition set_column :: "string \<Rightarrow> cell list \<Rightarrow> dataframe \<Rightarrow> dataframe" where
  "set_column c new df = df\<lparr>cols := map (\<lambda>(n, col). if n = c then (n, new) else (n, col)) (cols df)\<rparr>"

text \<open>\<^verbatim>\<open>if c in df.columns: df[c] = f(df[c])\<close>, and the loop of it over a list of labels.\<close>

definition update_column :: "(cell list \<Rightarrow> error + cell list) \<Rightarrow> string \<Rightarrow> dataframe \<Rightarrow> error + dataframe" where
  "update_column f c df =
     (if has_column df c then
        (case f (column df c) of Inl e \<Rightarrow> Inl e | Inr new \<Rightarrow> Inr (set_column c new df))
      else Inr df)"

fun update_columns :: "(cell list \<Rightarrow> error + cell list) \<Rightarrow> string list \<Rightarrow> dataframe \<Rightarrow> error + dataframe" where
  "update_columns f [] df = Inr df"
| "update_columns f (c # cs) df =
     (case update_column f c df of Inl e \<Rightarrow> Inl e | Inr df' \<Rightarrow> update_columns f cs df')"

text \<open>
  \<^verbatim>\<open>df.reindex(columns=target)\<close>: the columns of \<open>target\<close> in its order, a column the
  frame lacks filled with \<open>NaN\<close>.
\<close>

definition reindex :: "string list \<Rightarrow> dataframe \<Rightarrow> dataframe" where
  "reindex target df =
     df\<lparr>cols := map (\<lambda>c. (c, if has_column df c then column df c
                              else replicate (nrows df) (Float NaN))) target\<rparr>"

definition PRODUCT_TARGET_COLS :: "string list" where
  "PRODUCT_TARGET_COLS =
     [''PRODUCT_ID'', ''SKU'', ''NAME'', ''PRICE'', ''COST'', ''UPC'', ''ASIN'', ''COUNTRY'', ''UPDATED'',
      ''TOTAL_ON_HAND'', ''TOTAL_AVAILABLE'', ''TOTAL_COMMITTED'', ''TOTAL_ALLOCATED'',
      ''TOTAL_UNALLOCATED'', ''TOTAL_MFG_ORDERED'', ''TO_BE_SHIPPED'', ''HEIGHT'', ''WEIGHT'', ''WIDTH'',
      ''TAGS'', ''CARTS'']"

definition WAREHOUSE_TARGET_COLS :: "string list" where
  "WAREHOUSE_TARGET_COLS =
     [''PRODUCT_ID'', ''SKU'', ''NAME'', ''PRICE'', ''COST'', ''UPC'', ''ASIN'', ''COUNTRY'', ''UPDATED'',
      ''TOTAL_ON_HAND'', ''TOTAL_AVAILABLE'', ''TOTAL_COMMITTED'', ''TOTAL_ALLOCATED'',
      ''TOTAL_UNALLOCATED'', ''TOTAL_MFG_ORDERED'', ''TO_BE_SHIPPED'', ''HEIGHT'', ''WEIGHT'', ''WIDTH'',
      ''TAGS'', ''CARTS'',
      ''WH_ID'', ''WH_NAME'', ''WH_UPDATED'', ''WH_CREATED'', ''WH_LAST_CHANGE'',
      ''LOW_STOCK_THTD'', ''OOS_THTD'', ''POH'', ''AOH'', ''CMT'', ''OMO'', ''OPO'', ''ON_HAND'',
      ''ALLOCATED'', ''UNALLOCATED'',
      ''WH_SHIP_CFG'', ''WH_IS_DEFAULT'', ''LOCATION'']"

definition PRODUCT_QTY_COLS :: "string list" where
  "PRODUCT_QTY_COLS =
     [''TOTAL_ON_HAND'', ''TOTAL_AVAILABLE'', ''TOTAL_COMMITTED'', ''TOTAL_ALLOCATED'',
      ''TOTAL_UNALLOCATED'', ''TOTAL_MFG_ORDERED'', ''TO_BE_SHIPPED'']"

definition WAREHOUSE_QTY_COLS :: "string list" where
  "WAREHOUSE_QTY_COLS =
     [''LOW_STOCK_THTD'', ''OOS_THTD'', ''POH'', ''AOH'', ''CMT'', ''OMO'', ''OPO'', ''ON_HAND'',
      ''ALLOCATED'', ''UNALLOCATED'']"

text \<open>Sequencing of steps that may raise.\<close>

definition and_then :: "error + 'a \<Rightarrow> ('a \<Rightarrow> error + 'b) \<Rightarrow> error + 'b" where
  "and_then r f = (case r of Inl e \<Rightarrow> Inl e | Inr x \<Rightarrow> f x)"

definition clean_products_df :: "pandas \<Rightarrow> dataframe \<Rightarrow> error + dataframe" where
  "clean_products_df pd df =
     (if empty_frame df then Inr (reindex PRODUCT_TARGET_COLS df)
      else
        and_then (update_column (clean_timestamp pd) ''UPDATED'' df) (\<lambda>df1.
        and_then (update_columns (clean_currency pd) [''PRICE'', ''COST''] df1) (\<lambda>df2.
        and_then (update_columns (clean_quantity pd) PRODUCT_QTY_COLS df2) (\<lambda>df3.
        and_then (update_columns (clean_numeric pd) [''HEIGHT'', ''WEIGHT'', ''WIDTH'', ''PRODUCT_ID''] df3) (\<lambda>df4.
        Inr (reindex PRODUCT_TARGET_COLS df4))))))"

definition clean_wh_df :: "pandas \<Rightarrow> dataframe \<Rightarrow> error + dataframe" where
  "clean_wh_df pd df =
     (if empty_frame df then Inr (reindex WAREHOUSE_TARGET_COLS df)
      else
        and_then (update_columns (clean_timestamp pd)
                    [''UPDATED'', ''WH_UPDATED'', ''WH_CREATED'', ''WH_LAST_CHANGE''] df) (\<lambda>df1.
        and_then (update_columns (clean_currency pd) [''PRICE'', ''COST''] df1) (\<lambda>df2.
        and_then (update_columns (clean_quantity pd)
                    (WAREHOUSE_QTY_COLS @ [''PRODUCT_ID'', ''WH_ID'']) df2) (\<lambda>df3.
        and_then (update_columns (clean_numeric pd) [''HEIGHT'', ''WEIGHT'', ''WIDTH''] df3) (\<lambda>df4.
        and_then (update_columns (clean_flag pd) [''WH_SHIP_CFG'', ''WH_IS_DEFAULT''] df4) (\<lambda>df5.
        Inr (reindex WAREHOUSE_TARGET_COLS df5)))))))"

text \<open>
  \<^verbatim>\<open>pd.DataFrame(rows)\<close> for a list of rows (dictionaries): the labels in the order of
  their first appearance, each value as the object it is, \<open>NaN\<close> where a row lacks
  the label.
\<close>

definition DataFrame :: "row list \<Rightarrow> dataframe" where
  "DataFrame rows =
     \<lparr>nrows = length rows,
      cols = map (\<lambda>c. (c, map (\<lambda>r. case map_of r c of None \<Rightarrow> Float NaN | Some v \<Rightarrow> Obj v) rows))
               (rev (remdups (rev (concat (map (map fst) rows)))))\<rparr>"

text \<open>
  A stand-in for the library, for the examples: it converts the integers of a column and
  takes every other value as one that does not parse, and its other conversions leave
  the values as they are.
\<close>

definition example_number :: "cell \<Rightarrow> number" where
  "example_number c = (case c of Obj (JInt i) \<Rightarrow> Finite (of_int i) | Float x \<Rightarrow> x | _ \<Rightarrow> NaN)"

definition example_pandas :: pandas where
  "example_pandas =
     \<lparr>to_numeric = (\<lambda>col. Inr (\<lambda>i. example_number (col ! i))),
      to_datetime = (\<lambda>col. Inr (\<lambda>i. col ! i)),
      tz_convert_utc = (\<lambda>col. Inl TypeError),
      tz_localize_none = (\<lambda>col. Inl TypeError),
      astype_boolean = (\<lambda>col. Inr (\<lambda>i. col ! i)),
      round2 = (\<lambda>x. x)\<rparr>"

text \<open>A function on columns that gives a column of the same length whenever it returns.\<close>

definition keeps_length :: "(cell list \<Rightarrow> error + cell list) \<Rightarrow> bool" where
  "keeps_length f \<longleftrightarrow> (\<forall>col new. f col = Inr new \<longrightarrow> length new = length col)"

text \<open>
  Examples: a product whose total on hand is the text \<^verbatim>\<open>abc\<close> and that has no other
  total, with one warehouse entry whose physical quantity is \<^verbatim>\<open>abc\<close>, and their rows.
\<close>

definition abc_warehouse :: "(string \<times> json) list" where
  "abc_warehouse = [(''id'', JInt 5), (''physical_on_hand'', JStr ''abc'')]"

definition abc_product :: "(string \<times> json) list" where
  "abc_product =
     [(''id'', JInt 7), (''total_on_hand'', JStr ''abc''), (''warehouses'', JList [JDict abc_warehouse])]"

definition abc_row :: row where
  "abc_row = read_fields PRODUCT_FIELDS abc_product @ [(''TAGS'', JStr []), (''CARTS'', JStr [])]"

definition abc_wh_row :: row where
  "abc_wh_row = abc_row @ read_fields WAREHOUSE_FIELDS abc_warehouse"

section \<open>Properties of the retrying fetcher\<close>


text \<open>\<open>k\<close> failed attempts in a row, within the cap, take the loop \<open>k\<close> iterations on.\<close>

lemma retry_loop_fails:
  "(\<forall>i<k. \<exists>e. try_get net url ps (n + i) = (Inl e, n + i + 1)) \<Longrightarrow> int (a + k) \<le> m \<Longrightarrow>
     retry_loop m net url ps a n sl = retry_loop m net url ps (a + k) (n + k) (sl @ [a + 1..<a + k + 1])"
proof (induction k arbitrary: a n sl)
  case 0
  then show ?case by simp
next
  case (Suc k)
  from Suc.prems(1) have "\<exists>e. try_get net url ps (n + 0) = (Inl e, n + 0 + 1)" by blast
  then obtain e where first: "try_get net url ps n = (Inl e, n + 1)" by auto
  have rest: "\<forall>i<k. \<exists>e. try_get net url ps (Suc n + i) = (Inl e, Suc n + i + 1)"
  proof (intro allI impI)
    fix i assume "i < k"
    then have "Suc i < Suc k" by simp
    with Suc.prems(1) have "\<exists>e. try_get net url ps (n + Suc i) = (Inl e, n + Suc i + 1)" by blast
    then show "\<exists>e. try_get net url ps (Suc n + i) = (Inl e, Suc n + i + 1)" by simp
  qed
  have step: "retry_loop m net url ps a n sl = retry_loop m net url ps (a + 1) (n + 1) (sl @ [a + 1])"
    using Suc.prems(2) by (subst retry_loop.simps) (simp add: first)
  have "retry_loop m net url ps (Suc a) (Suc n) (sl @ [a + 1]) =
        retry_loop m net url ps (Suc a + k) (Suc n + k) ((sl @ [a + 1]) @ [Suc a + 1..<Suc a + k + 1])"
    using Suc.prems(2) by (intro Suc.IH [OF rest]) simp
  moreover have "[a + 1] @ [Suc a + 1..<Suc a + k + 1] = [a + 1..<a + Suc k + 1]"
  proof -
    have "[Suc a..<Suc (Suc (a + k))] = Suc a # [Suc (Suc a)..<Suc (Suc (a + k))]"
      by (rule upt_conv_Cons) simp
    then show ?thesis by (simp only: add_Suc_right add_Suc add_0_right One_nat_def append.simps)
  qed
  ultimately show ?case using step by simp
qed




text \<open>
  C3. A status 404 is not among the retryable ones of line 90, but \<^verbatim>\<open>raise_for_status\<close>
  is inside the \<^verbatim>\<open>try\<close> block and its \<^verbatim>\<open>HTTPError\<close> is caught by line 94: with
  \<^verbatim>\<open>MAX_RETRIES = 5\<close> the fetch makes six calls and sleeps five times before it raises.
\<close>

theorem non_retryable_status_is_retried:
  "request_with_retry 5 (always_status 404) url ps 0 = (Inl (HTTPError 404), 6, [1, 2, 3, 4, 5])"
  by (simp add: request_with_retry_def retry_loop.simps try_get_def always_status_def
      redirect_target_def is_redirect_def check_status_def)

text \<open>
  More generally, a server that answers every request with one status from 400 to 599,
  retryable or not, is asked \<^verbatim>\<open>MAX_RETRIES + 1\<close> times, with a sleep after each failure
  but the last.
\<close>

lemma try_get_http_error:
  "400 \<le> s \<Longrightarrow> s < 600 \<Longrightarrow> try_get (always_status s) url ps j = (Inl (HTTPError s), j + 1)"
  by (simp add: try_get_def always_status_def redirect_target_def is_redirect_def check_status_def)

lemma http_error_is_retried:
  assumes "400 \<le> s" and "s < 600" and "0 \<le> m"
  shows "request_with_retry m (always_status s) url ps n =
     (Inl (HTTPError s), n + nat m + 1, [1..<nat m + 1])"
proof -
  have "retry_loop m (always_status s) url ps 0 n [] =
        retry_loop m (always_status s) url ps (0 + nat m) (n + nat m) ([] @ [0 + 1..<0 + nat m + 1])"
    using assms by (intro retry_loop_fails) (simp_all add: try_get_http_error)
  also have "\<dots> = (Inl (HTTPError s), n + nat m + 1, [1..<nat m + 1])"
    using assms by (subst retry_loop.simps) (simp add: try_get_http_error)
  finally show ?thesis by (simp add: request_with_retry_def)
qed

section \<open>Properties of the pagination cursor\<close>

lemma request_with_retry_ok:
  "net n (url, Some ps) = ok_response data \<Longrightarrow>
     request_with_retry m net url ps n =
       (Inr \<lparr>status_code = 200, location = None, body = Some data\<rparr>, n + 1, [])"
  by (simp add: request_with_retry_def retry_loop.simps try_get_def ok_response_def
      redirect_target_def is_redirect_def check_status_def)

lemma cursor_step_ok:
  "net n (BASE @ ''/product/'', Some (request_params l c)) = ok_response data \<Longrightarrow>
     cursor_step m net l c n = (handle_data l c data, n + 1)"
  by (simp add: cursor_step_def request_with_retry_ok)

text \<open>
  C1. The source has six records and \<^verbatim>\<open>limit\<close> is 2; every offset request is answered
  with the first page. The cursor yields page 1, asks for offset 2, sees the first id
  again and switches: \<^verbatim>\<open>offset\<close> is already 2, so the first page request is for page
  \<^verbatim>\<open>2 // 2 + 2 = 3\<close>, and page 2 (the records 3 and 4) is never requested.
\<close>

theorem stall_switch_requests_page_three:
  "iter_products_batches 5 (stalled_source (map rec_id [1, 2, 3, 4, 5, 6])) 2 10 =
    ([Requested \<lparr>limit = 2, selector = ByOffset 0\<rparr>, Yielded [rec_id 1, rec_id 2],
      Requested \<lparr>limit = 2, selector = ByOffset 2\<rparr>, Switched 3,
      Requested \<lparr>limit = 2, selector = ByPage 3\<rparr>, Yielded [rec_id 5, rec_id 6],
      Requested \<lparr>limit = 2, selector = ByPage 4\<rparr>], Finished)"
  by code_simp







lemma wrapped_empty_page:
  assumes "\<not> use_page_mode c" and "1 \<le> offset c"
  shows "cursor_step m (wrapped_source [rec_id 1]) 1 c n =
          (YieldGo [JDict [(''product'', JList [])]] (c\<lparr>offset := offset c + 1, last_first_id := JNull\<rparr>), n + 1)"
proof -
  have drop: "drop (nat (offset c)) [rec_id 1] = []" using assms(2) by simp
  have "wrapped_source [rec_id 1] n (BASE @ ''/product/'', Some (request_params 1 c)) =
          ok_response (JDict [(''product'', JList [])])"
    using assms(1) by (simp add: wrapped_source_def page_of_def request_params_def drop)
  then have "cursor_step m (wrapped_source [rec_id 1]) 1 c n =
          (handle_data 1 c (JDict [(''product'', JList [])]), n + 1)"
    by (rule cursor_step_ok)
  moreover have "handle_data 1 c (JDict [(''product'', JList [])]) =
      YieldGo [JDict [(''product'', JList [])]] (c\<lparr>offset := offset c + 1, last_first_id := JNull\<rparr>)"
    using assms(1) by (simp add: handle_data_def extract_batch_def first_id_of_def dict_get_def Let_def)
  ultimately show ?thesis by simp
qed

lemma wrapped_runs_forever:
  "\<not> use_page_mode c \<Longrightarrow> 1 \<le> offset c \<Longrightarrow>
     run_cursor m (wrapped_source [rec_id 1]) 1 fuel c n = (evs, out) \<Longrightarrow>
     out = OutOfFuel \<and> length (yielded evs) = fuel"
proof (induction fuel arbitrary: c n evs out)
  case 0
  then show ?case by simp
next
  case (Suc fuel)
  let ?c = "c\<lparr>offset := offset c + 1, last_first_id := JNull\<rparr>"
  obtain evs' out' where r: "run_cursor m (wrapped_source [rec_id 1]) 1 fuel ?c (n + 1) = (evs', out')"
    by (cases "run_cursor m (wrapped_source [rec_id 1]) 1 fuel ?c (n + 1)")
  have "out' = OutOfFuel \<and> length (yielded evs') = fuel"
    using Suc.prems(1,2) by (intro Suc.IH [OF _ _ r]) simp_all
  moreover have "evs = Requested (request_params 1 c) # Yielded [JDict [(''product'', JList [])]] # evs'
      \<and> out = out'"
    using Suc.prems(3) r by (simp add: wrapped_empty_page [OF Suc.prems(1,2)] Let_def)
  ultimately show ?case by auto
qed

lemma wrapped_first_page:
  "cursor_step m (wrapped_source [rec_id 1]) 1 initial_cursor 0 =
     (YieldGo [rec_id 1] (initial_cursor\<lparr>offset := 1, last_first_id := JInt 1\<rparr>), 1)"
proof -
  have "wrapped_source [rec_id 1] 0 (BASE @ ''/product/'', Some (request_params 1 initial_cursor)) =
          ok_response (JDict [(''product'', JList [rec_id 1])])"
    by (simp add: wrapped_source_def page_of_def request_params_def initial_cursor_def)
  then have "cursor_step m (wrapped_source [rec_id 1]) 1 initial_cursor 0 =
          (handle_data 1 initial_cursor (JDict [(''product'', JList [rec_id 1])]), 0 + 1)"
    by (rule cursor_step_ok)
  moreover have "handle_data 1 initial_cursor (JDict [(''product'', JList [rec_id 1])]) =
      YieldGo [rec_id 1] (initial_cursor\<lparr>offset := 1, last_first_id := JInt 1\<rparr>)"
    by (simp add: handle_data_def extract_batch_def first_id_of_def dict_get_def Let_def
        initial_cursor_def rec_id_def)
  ultimately show ?thesis by simp
qed

text \<open>
  C6. A source that answers with the batch under the key \<^verbatim>\<open>product\<close>. With two records
  and \<^verbatim>\<open>limit = 2\<close> the page after the last one holds an empty list: line 122 turns the
  payload itself into a one-record batch, which is yielded. With one record and
  \<^verbatim>\<open>limit = 1\<close> that batch is not under-full, so the generator asks for the next offset
  and never ends: with any fuel the run is cut off, having yielded once for each unit.
  Last, a source that answers with bare lists and holds three records, the third with
  the id of the first, and \<^verbatim>\<open>limit = 2\<close>: the under-full last batch is taken for a stall
  and the page computed by line 134 lies beyond it, so the last batch yielded is a full
  one although 3 is not a multiple of 2.
\<close>

theorem empty_wrapped_page_is_yielded:
  "iter_products_batches 5 (wrapped_source [rec_id 1, rec_id 2]) 2 10 =
     ([Requested \<lparr>limit = 2, selector = ByOffset 0\<rparr>, Yielded [rec_id 1, rec_id 2],
       Requested \<lparr>limit = 2, selector = ByOffset 2\<rparr>, Yielded [JDict [(''product'', JList [])]]],
      Finished) \<and>
   (\<forall>fuel. snd (iter_products_batches 5 (wrapped_source [rec_id 1]) 1 fuel) = OutOfFuel \<and>
            length (yielded (fst (iter_products_batches 5 (wrapped_source [rec_id 1]) 1 fuel))) = fuel) \<and>
   iter_products_batches 5 (list_source [rec_id 1, rec_id 2, rec_id 1]) 2 10 =
     ([Requested \<lparr>limit = 2, selector = ByOffset 0\<rparr>, Yielded [rec_id 1, rec_id 2],
       Requested \<lparr>limit = 2, selector = ByOffset 2\<rparr>, Switched 3,
       Requested \<lparr>limit = 2, selector = ByPage 3\<rparr>], Finished)"
proof (intro conjI allI)
  show "iter_products_batches 5 (list_source [rec_id 1, rec_id 2, rec_id 1]) 2 10 =
     ([Requested \<lparr>limit = 2, selector = ByOffset 0\<rparr>, Yielded [rec_id 1, rec_id 2],
       Requested \<lparr>limit = 2, selector = ByOffset 2\<rparr>, Switched 3,
       Requested \<lparr>limit = 2, selector = ByPage 3\<rparr>], Finished)"
    by code_simp
next
  show "iter_products_batches 5 (wrapped_source [rec_id 1, rec_id 2]) 2 10 =
     ([Requested \<lparr>limit = 2, selector = ByOffset 0\<rparr>, Yielded [rec_id 1, rec_id 2],
       Requested \<lparr>limit = 2, selector = ByOffset 2\<rparr>, Yielded [JDict [(''product'', JList [])]]],
      Finished)"
    by code_simp
next
  fix fuel
  let ?run = "iter_products_batches 5 (wrapped_source [rec_id 1]) 1 fuel"
  have "snd ?run = OutOfFuel \<and> length (yielded (fst ?run)) = fuel"
  proof (cases fuel)
    case 0
    then show ?thesis by (simp add: iter_products_batches_def)
  next
    case (Suc f)
    let ?c = "initial_cursor\<lparr>offset := 1, last_first_id := JInt 1\<rparr>"
    obtain evs' out' where r: "run_cursor 5 (wrapped_source [rec_id 1]) 1 f ?c 1 = (evs', out')"
      by (cases "run_cursor 5 (wrapped_source [rec_id 1]) 1 f ?c 1")
    have "out' = OutOfFuel \<and> length (yielded evs') = f"
      by (rule wrapped_runs_forever [OF _ _ r]) (simp_all add: initial_cursor_def)
    then show ?thesis
      using r by (simp add: iter_products_batches_def Suc wrapped_first_page Let_def)
  qed
  then show "snd ?run = OutOfFuel" and "length (yielded (fst ?run)) = fuel" by simp_all
qed

lemma cursor_step_cases:
  "cursor_step m net l c n = (s, n') \<Longrightarrow> (\<exists>e. s = Raise e) \<or> (\<exists>data. s = handle_data l c data)"
  by (auto simp: cursor_step_def split: prod.splits sum.splits option.splits)

lemma handle_data_switch:
  assumes "handle_data l c data = Switch c'" and "0 < l" and "offset_inv l c"
  shows "use_page_mode c' \<and> 3 \<le> page c'"
proof -
  from assms(1) have c': "c' = c\<lparr>use_page_mode := True, page := offset c div l + 2\<rparr>"
    and off: "\<not> use_page_mode c" "last_first_id c \<noteq> JNull"
    by (auto simp: handle_data_def Let_def split: if_splits sum.splits)
  with assms(3) have "l \<le> offset c" by (simp add: offset_inv_def)
  with assms(2) have "l div l \<le> offset c div l" by (intro zdiv_mono1) simp_all
  with assms(2) have "1 \<le> offset c div l" by simp
  with c' show ?thesis by simp
qed

lemma handle_data_go:
  assumes "handle_data l c data = YieldGo b c'" and "offset_inv l c"
  shows "offset_inv l c'"
  using assms
  by (auto simp: handle_data_def Let_def offset_inv_def split: if_splits sum.splits)

lemma run_cursor_switch_page:
  "run_cursor m net l fuel c n = (evs, out) \<Longrightarrow> 0 < l \<Longrightarrow> offset_inv l c \<Longrightarrow>
     Switched p \<in> set evs \<Longrightarrow> 3 \<le> p"
proof (induction fuel arbitrary: c n evs out)
  case 0
  then show ?case by simp
next
  case (Suc fuel)
  obtain s n' where s: "cursor_step m net l c n = (s, n')" by (cases "cursor_step m net l c n")
  show ?case
  proof (cases s)
    case Stop
    with Suc.prems s show ?thesis by (auto simp: Let_def)
  next
    case (Raise e)
    with Suc.prems s show ?thesis by (auto simp: Let_def)
  next
    case (YieldStop b)
    with Suc.prems s show ?thesis by (auto simp: Let_def)
  next
    case (Switch c')
    obtain evs' out' where r: "run_cursor m net l fuel c' n' = (evs', out')"
      by (cases "run_cursor m net l fuel c' n'")
    from cursor_step_cases [OF s] Switch obtain data where "handle_data l c data = Switch c'" by auto
    from handle_data_switch [OF this Suc.prems(2,3)] have c': "use_page_mode c'" "3 \<le> page c'" by simp_all
    then have inv: "offset_inv l c'" by (simp add: offset_inv_def)
    from Suc.prems(1) s Switch r have "evs = Requested (request_params l c) # Switched (page c') # evs'"
      by (auto simp: Let_def)
    with Suc.prems(4) have "p = page c' \<or> Switched p \<in> set evs'" by auto
    with c'(2) Suc.IH [OF r Suc.prems(2) inv] show ?thesis by auto
  next
    case (YieldGo b c')
    obtain evs' out' where r: "run_cursor m net l fuel c' n' = (evs', out')"
      by (cases "run_cursor m net l fuel c' n'")
    from cursor_step_cases [OF s] YieldGo obtain data where "handle_data l c data = YieldGo b c'" by auto
    from handle_data_go [OF this Suc.prems(3)] have inv: "offset_inv l c'" .
    from Suc.prems(1) s YieldGo r have "evs = Requested (request_params l c) # Yielded b # evs'"
      by (auto simp: Let_def)
    with Suc.prems(4) have "Switched p \<in> set evs'" by auto
    with Suc.IH [OF r Suc.prems(2) inv] show ?thesis by simp
  qed
qed

text \<open>
  For every source and every positive limit, a switch to page mode starts at page 3 or
  later: page 2 is never the first page requested in page mode.
\<close>

lemma switch_page_at_least_three:
  "iter_products_batches m net l fuel = (evs, out) \<Longrightarrow> 0 < l \<Longrightarrow> Switched p \<in> set evs \<Longrightarrow> 3 \<le> p"
  by (rule run_cursor_switch_page [of m net l fuel initial_cursor 0 evs out])
    (simp_all add: iter_products_batches_def offset_inv_def initial_cursor_def)


text \<open>
  A source that answers every request with the bare list of the records of the page,
  all of them dictionaries: for a positive limit the generator ends, within one
  iteration for each record and one more.
\<close>

lemma list_source_step:
  "cursor_step m (list_source recs) l c n =
     (handle_data l c (JList (page_of recs (request_params l c))), n + 1)"
  by (rule cursor_step_ok) (simp add: list_source_def)

lemma first_id_of_dict: "first_id_of (JDict d) = Inr (if d = [] then JNull else dict_get d ''id'')"
  by (simp add: first_id_of_def)

lemma hd_take_drop_in_set: "take a (drop k xs) \<noteq> [] \<Longrightarrow> hd (take a (drop k xs)) \<in> set xs"
  by (metis hd_in_set in_set_dropD in_set_takeD)

lemma handle_data_list:
  assumes "batch \<noteq> []" and "hd batch = JDict d"
  shows "handle_data l c (JList batch) =
     (let fid = (if d = [] then JNull else dict_get d ''id'') in
      if \<not> use_page_mode c \<and> last_first_id c \<noteq> JNull \<and> py_eq fid (last_first_id c)
      then (if l = 0 then Raise ZeroDivisionError
            else Switch (c\<lparr>use_page_mode := True, page := offset c div l + 2\<rparr>))
      else if int (length batch) < l then YieldStop batch
      else if use_page_mode c then YieldGo batch (c\<lparr>page := page c + 1\<rparr>)
      else YieldGo batch (c\<lparr>offset := offset c + int (length batch), last_first_id := fid\<rparr>))"
  using assms
  by (simp add: handle_data_def extract_batch_def Let_def first_id_of_dict del: py_eq.simps)

lemma handle_data_empty_list: "handle_data l c (JList []) = Stop"
  by (simp add: handle_data_def extract_batch_def)

lemma page_phase_ends:
  assumes dicts: "\<forall>r\<in>set recs. \<exists>d. r = JDict d" and l: "0 < l"
  shows "use_page_mode c \<Longrightarrow> 1 \<le> page c \<Longrightarrow> length recs - nat ((page c - 1) * l) < fuel \<Longrightarrow>
     snd (run_cursor m (list_source recs) l fuel c n) = Finished"
proof (induction fuel arbitrary: c n)
  case 0
  then show ?case by simp
next
  case (Suc fuel)
  define k where "k = nat ((page c - 1) * l)"
  define batch where "batch = take (nat l) (drop k recs)"
  have po: "page_of recs (request_params l c) = batch"
    using Suc.prems(1) by (simp add: page_of_def request_params_def batch_def k_def)
  have step: "cursor_step m (list_source recs) l c n = (handle_data l c (JList batch), n + 1)"
    by (simp add: list_source_step po)
  show ?case
  proof (cases "batch = []")
    case True
    then show ?thesis by (simp add: step handle_data_empty_list)
  next
    case False
    then have "hd batch \<in> set recs" unfolding batch_def by (rule hd_take_drop_in_set)
    with dicts obtain d where d: "hd batch = JDict d" by auto
    note h = handle_data_list [OF False d, of l c]
    show ?thesis
    proof (cases "int (length batch) < l")
      case True
      with Suc.prems(1) show ?thesis by (simp add: step h del: py_eq.simps)
    next
      case full: False
      let ?c = "c\<lparr>page := page c + 1\<rparr>"
      have "length batch \<le> length recs - k" by (simp add: batch_def)
      with full l have "nat l \<le> length recs - k" by linarith
      moreover have "nat ((page ?c - 1) * l) = k + nat l"
      proof -
        have "0 \<le> (page c - 1) * l" using Suc.prems(2) l by simp
        moreover have "(page ?c - 1) * l = (page c - 1) * l + l" by (simp add: algebra_simps)
        ultimately show ?thesis using l by (simp add: nat_add_distrib k_def)
      qed
      moreover from l have "0 < nat l" by simp
      moreover from Suc.prems(3) have "length recs - k < Suc fuel" by (simp add: k_def)
      ultimately have "length recs - nat ((page ?c - 1) * l) < fuel" by linarith
      then have "snd (run_cursor m (list_source recs) l fuel ?c (n + 1)) = Finished"
        using Suc.prems(1,2) by (intro Suc.IH) simp_all
      with full Suc.prems(1) show ?thesis by (auto simp: step h simp del: py_eq.simps split: prod.splits)
    qed
  qed
qed

lemma offset_phase_ends:
  assumes dicts: "\<forall>r\<in>set recs. \<exists>d. r = JDict d" and l: "0 < l"
  shows "\<not> use_page_mode c \<Longrightarrow> 0 \<le> offset c \<Longrightarrow> length recs - nat (offset c) < fuel \<Longrightarrow>
     snd (run_cursor m (list_source recs) l fuel c n) = Finished"
proof (induction fuel arbitrary: c n)
  case 0
  then show ?case by simp
next
  case (Suc fuel)
  define k where "k = nat (offset c)"
  define batch where "batch = take (nat l) (drop k recs)"
  have po: "page_of recs (request_params l c) = batch"
    using Suc.prems(1) by (simp add: page_of_def request_params_def batch_def k_def)
  have step: "cursor_step m (list_source recs) l c n = (handle_data l c (JList batch), n + 1)"
    by (simp add: list_source_step po)
  from Suc.prems(3) have fuel: "length recs - k < Suc fuel" by (simp add: k_def)
  show ?case
  proof (cases "batch = []")
    case True
    then show ?thesis by (simp add: step handle_data_empty_list)
  next
    case False
    then have "hd batch \<in> set recs" unfolding batch_def by (rule hd_take_drop_in_set)
    with dicts obtain d where d: "hd batch = JDict d" by auto
    note h = handle_data_list [OF False d, of l c]
    define fid where "fid = (if d = [] then JNull else dict_get d ''id'')"
    from False have inside: "k < length recs"
      unfolding batch_def by (cases "k < length recs") auto
    show ?thesis
    proof (cases "last_first_id c \<noteq> JNull \<and> py_eq fid (last_first_id c)")
      case True
      let ?c = "c\<lparr>use_page_mode := True, page := offset c div l + 2\<rparr>"
      define X where "X = (page ?c - 1) * l"
      have "offset c < X"
      proof -
        have "l * (offset c div l) + offset c mod l = offset c" by simp
        moreover have "offset c mod l < l" using l by simp
        moreover have "X = l * (offset c div l) + l" by (simp add: X_def algebra_simps)
        ultimately show ?thesis by linarith
      qed
      then have "k < nat X" unfolding k_def using Suc.prems(2) by arith
      then have "k < nat ((page ?c - 1) * l)" by (simp only: X_def)
      with inside fuel have "length recs - nat ((page ?c - 1) * l) < fuel" by linarith
      moreover have "1 \<le> page ?c"
        using Suc.prems(2) l by (simp add: pos_imp_zdiv_nonneg_iff)
      ultimately have "snd (run_cursor m (list_source recs) l fuel ?c (n + 1)) = Finished"
        using dicts l by (intro page_phase_ends) simp_all
      with True Suc.prems(1) l show ?thesis
        by (auto simp: step h fid_def simp del: py_eq.simps split: prod.splits)
    next
      case nostall: False
      show ?thesis
      proof (cases "int (length batch) < l")
        case True
        with nostall show ?thesis by (auto simp: step h fid_def simp del: py_eq.simps)
      next
        case full: False
        let ?c = "c\<lparr>offset := offset c + int (length batch), last_first_id := fid\<rparr>"
        from False have pos: "0 < length batch" by simp
        have "nat (offset ?c) = k + length batch"
          using Suc.prems(2) by (simp add: nat_add_distrib k_def)
        with inside fuel pos have "length recs - nat (offset ?c) < fuel" by linarith
        then have "snd (run_cursor m (list_source recs) l fuel ?c (n + 1)) = Finished"
          using Suc.prems(1,2) by (intro Suc.IH) simp_all
        with nostall full Suc.prems(1) show ?thesis
          by (auto simp: step h fid_def simp del: py_eq.simps split: prod.splits)
      qed
    qed
  qed
qed

lemma list_source_terminates:
  "\<forall>r\<in>set recs. \<exists>d. r = JDict d \<Longrightarrow> 0 < l \<Longrightarrow>
     snd (iter_products_batches m (list_source recs) l (Suc (length recs))) = Finished"
  unfolding iter_products_batches_def
  by (rule offset_phase_ends) (simp_all add: initial_cursor_def)

text \<open>In either state the generator goes on after a yield only when the batch is not under-full.\<close>

lemma under_full_batch_ends:
  "handle_data l c data = YieldGo b c' \<Longrightarrow> l \<le> int (length b)"
  by (auto simp: handle_data_def Let_def split: if_splits sum.splits)

section \<open>Properties of the text cleaning\<close>

lemma replace_char_notin:
  "c \<notin> set r \<Longrightarrow> c \<notin> set (replace_char c r s)"
  by (induction s) (auto simp: replace_char_def)

lemma replace_char_keeps_out:
  "c \<notin> set s \<Longrightarrow> c \<notin> set r \<Longrightarrow> c \<notin> set (replace_char d r s)"
  by (induction s) (auto simp: replace_char_def)

lemma safe_str_no_pipe: "CHR ''|'' \<notin> set (safe_str rp x)"
  by (simp add: safe_str_def Let_def replace_char_keeps_out replace_char_notin FULLWIDTH_COLON_def)

lemma safe_str_no_colon: "CHR '':'' \<notin> set (safe_str rp x)"
  by (simp add: safe_str_def Let_def replace_char_notin FULLWIDTH_COLON_def)

lemma safe_str_chars:
  "safe_str rp x =
     concat (map (\<lambda>c. if c = CHR ''|'' then ''/'' else if c = CHR '':'' then FULLWIDTH_COLON else [c])
       (if x = JNull then [] else py_str rp x))"
proof -
  have "replace_char CHR '':'' FULLWIDTH_COLON (replace_char CHR ''|'' ''/'' s) =
      concat (map (\<lambda>c. if c = CHR ''|'' then ''/'' else if c = CHR '':'' then FULLWIDTH_COLON else [c]) s)"
    for s
    by (induction s) (auto simp: replace_char_def)
  then show ?thesis by (simp add: safe_str_def Let_def)
qed

lemma split_on_nonempty: "split_on c s \<noteq> []"
  by (induction s) (auto split: list.splits)

lemma split_on_free: "c \<notin> set x \<Longrightarrow> split_on c x = [x]"
  by (induction x) auto

lemma split_on_append: "c \<notin> set x \<Longrightarrow> split_on c (x @ c # rest) = x # split_on c rest"
  by (induction x) auto

lemma split_on_join:
  "xs \<noteq> [] \<Longrightarrow> \<forall>x\<in>set xs. c \<notin> set x \<Longrightarrow> split_on c (join [c] xs) = xs"
  by (induction "[c]" xs rule: join.induct) (auto simp: split_on_free split_on_append)

lemma strip_char_subset: "set (strip_char c s) \<subseteq> set s"
proof -
  have "set (dropWhile P xs) \<subseteq> set xs" for P and xs :: string
    by (metis set_dropWhileD subsetI)
  then show ?thesis unfolding strip_char_def by (metis set_rev subset_trans)
qed

lemma vendor_name_no_pipe: "CHR ''|'' \<notin> set (vendor_name rp v n)"
  using strip_char_subset [of "CHR '':''" "safe_str rp v @ '':'' @ safe_str rp n"]
  by (auto simp: vendor_name_def safe_str_no_pipe)

lemma tag_text_no_pipe: "CHR ''|'' \<notin> set (tag_text rp t)"
  by (simp add: tag_text_def Let_def safe_str_no_pipe split: json.splits)

lemma cart_text_no_pipe: "CHR ''|'' \<notin> set (cart_text rp t)"
  by (simp add: cart_text_def safe_str_no_pipe vendor_name_no_pipe split: json.splits)

lemma join_tags_out_no_pipe: "\<forall>x\<in>set (join_tags_out rp t). CHR ''|'' \<notin> set x"
  by (auto simp: join_tags_out_def Let_def safe_str_no_pipe tag_text_no_pipe split: json.splits)

lemma join_carts_out_no_pipe:
  "join_carts_out rp t = Inr out \<Longrightarrow> \<forall>x\<in>set out. CHR ''|'' \<notin> set x"
  by (auto simp: join_carts_out_def safe_str_no_pipe cart_text_no_pipe vendor_name_no_pipe
      split: json.splits if_splits)

text \<open>
  C8. \<^verbatim>\<open>_safe_str\<close> gives the text of the value (empty for \<^verbatim>\<open>None\<close>) with every \<^verbatim>\<open>|\<close>
  replaced by \<^verbatim>\<open>/\<close> and every \<^verbatim>\<open>:\<close> by the full-width colon, so neither character is
  left in it. Hence splitting TAGS on \<^verbatim>\<open>|\<close> gives back the list of element texts that
  \<^verbatim>\<open>_join_tags\<close> joined, and the same for CARTS when \<^verbatim>\<open>_join_carts\<close> returns; this is for
  a list with at least one element (no element joins to the empty string, which splits
  into one empty text). The raw product \<^verbatim>\<open>{id: 1, tags: ["a|b", "c"]}\<close> gets TAGS
  \<^verbatim>\<open>a/b|c\<close>.
\<close>

theorem safe_str_keeps_boundaries:
  "CHR ''|'' \<notin> set (safe_str rp x) \<and> CHR '':'' \<notin> set (safe_str rp x) \<and>
   safe_str rp x =
     concat (map (\<lambda>c. if c = CHR ''|'' then ''/'' else if c = CHR '':'' then FULLWIDTH_COLON else [c])
       (if x = JNull then [] else py_str rp x)) \<and>
   (join_tags_out rp tags \<noteq> [] \<longrightarrow>
      split_on CHR ''|'' (join_tags rp tags) = join_tags_out rp tags) \<and>
   (join_carts_out rp carts = Inr out \<and> out \<noteq> [] \<longrightarrow>
      (\<exists>s. join_carts rp carts = Inr s \<and> split_on CHR ''|'' s = out)) \<and>
   (\<exists>row. base_product_cols rp [(''id'', JInt 1), (''tags'', JList [JStr ''a|b'', JStr ''c''])] = Inr (Some row)
      \<and> dict_get row ''TAGS'' = JStr ''a/b|c'')"
proof (intro conjI impI)
  show "CHR ''|'' \<notin> set (safe_str rp x)" by (rule safe_str_no_pipe)
  show "CHR '':'' \<notin> set (safe_str rp x)" by (rule safe_str_no_colon)
  show "safe_str rp x =
     concat (map (\<lambda>c. if c = CHR ''|'' then ''/'' else if c = CHR '':'' then FULLWIDTH_COLON else [c])
       (if x = JNull then [] else py_str rp x))" by (rule safe_str_chars)
next
  assume "join_tags_out rp tags \<noteq> []"
  then show "split_on CHR ''|'' (join_tags rp tags) = join_tags_out rp tags"
    unfolding join_tags_def by (rule split_on_join) (rule join_tags_out_no_pipe)
next
  assume h: "join_carts_out rp carts = Inr out \<and> out \<noteq> []"
  then have "split_on CHR ''|'' (join ''|'' out) = out"
    by (intro split_on_join join_carts_out_no_pipe [of rp carts]) simp_all
  with h show "\<exists>s. join_carts rp carts = Inr s \<and> split_on CHR ''|'' s = out"
    by (simp add: join_carts_def)
next
  show "\<exists>row. base_product_cols rp [(''id'', JInt 1), (''tags'', JList [JStr ''a|b'', JStr ''c''])] = Inr (Some row)
      \<and> dict_get row ''TAGS'' = JStr ''a/b|c''"
    by (simp add: base_product_cols_def FILTER_ARCHIVED_def dict_get_def py_or_def join_carts_def
        join_carts_out_def join_tags_def join_tags_out_def tag_text_def safe_str_def py_str_def
        replace_char_def read_fields_def PRODUCT_FIELDS_def)
qed

theorem safe_str_keeps_boundaries_witness:
  "join_tags_out (\<lambda>v. []) (JList [JStr ''a|b'', JStr ''c'']) = [''a/b'', ''c''] \<and>
   split_on CHR ''|'' (join_tags (\<lambda>v. []) (JList [JStr ''a|b'', JStr ''c''])) = [''a/b'', ''c''] \<and>
   join_carts_out (\<lambda>v. []) (JList [JDict [(''vendor'', JStr ''a:b''), (''name'', JStr ''x|y'')], JStr ''z''])
     = Inr [''a'' @ FULLWIDTH_COLON @ ''b:x/y'', ''z''] \<and>
   (\<exists>s. join_carts (\<lambda>v. []) (JList [JDict [(''vendor'', JStr ''a:b''), (''name'', JStr ''x|y'')], JStr ''z''])
      = Inr s \<and> split_on CHR ''|'' s = [''a'' @ FULLWIDTH_COLON @ ''b:x/y'', ''z''])"
proof -
  let ?rp = "\<lambda>v::json. []::string"
  let ?tags = "JList [JStr ''a|b'', JStr ''c'']"
  let ?carts = "JList [JDict [(''vendor'', JStr ''a:b''), (''name'', JStr ''x|y'')], JStr ''z'']"
  let ?out = "[''a'' @ FULLWIDTH_COLON @ ''b:x/y'', ''z'']"
  have t: "join_tags_out ?rp ?tags = [''a/b'', ''c'']"
    by (simp add: join_tags_out_def tag_text_def safe_str_def py_str_def replace_char_def)
  have c: "join_carts_out ?rp ?carts = Inr ?out"
    by (simp add: join_carts_out_def cart_text_def vendor_name_def strip_char_def safe_str_def
        py_str_def replace_char_def py_or_def dict_get_def FULLWIDTH_COLON_def)
  note inst = safe_str_keeps_boundaries [of ?rp JNull ?tags ?carts ?out]
  have "split_on CHR ''|'' (join_tags ?rp ?tags) = join_tags_out ?rp ?tags"
    using inst t by simp
  moreover have "\<exists>s. join_carts ?rp ?carts = Inr s \<and> split_on CHR ''|'' s = ?out"
    using inst c by blast
  ultimately show ?thesis using t c by simp
qed

text \<open>
  C7. For the single mapping \<^verbatim>\<open>{"channel": "amazon", "name": "main"}\<close> the claim gives
  \<^verbatim>\<open>amazon:main\<close>, which is what the list branch computes for that element; the branch
  for a single mapping raises \<^verbatim>\<open>UnboundLocalError\<close>, since \<^verbatim>\<open>vendor\<close> is missing and the
  fallback of line 179 reads \<^verbatim>\<open>c\<close>.
\<close>

theorem single_cart_mapping_raises:
  "join_carts rp (JDict [(''channel'', JStr ''amazon''), (''name'', JStr ''main'')]) = Inl UnboundLocalError \<and>
   join_carts_spec rp [(''channel'', JStr ''amazon''), (''name'', JStr ''main'')] = ''amazon:main''"
  by (simp add: join_carts_def join_carts_out_def join_carts_spec_def cart_text_def vendor_name_def
      strip_char_def safe_str_def py_str_def replace_char_def py_or_def dict_get_def)

section \<open>Properties of the deduplication\<close>

lemma fresh_Nil [simp]: "fresh f S [] = []"
  by (simp add: fresh_def)

lemma fresh_Cons:
  "fresh f S (x # xs) = (if f x \<in> S then fresh f S xs else x # fresh f (insert (f x) S) xs)"
proof -
  have "filter (\<lambda>y. f y \<noteq> f x) (filter (\<lambda>y. f y \<notin> S) xs) = filter (\<lambda>y. f y \<notin> insert (f x) S) xs"
    by (induction xs) auto
  then show ?thesis by (simp add: fresh_def)
qed

lemma fresh_append:
  "fresh f S (xs @ ys) = fresh f S xs @ fresh f (S \<union> f ` set xs) ys"
proof (induction xs arbitrary: S)
  case Nil
  then show ?case by simp
next
  case (Cons x xs)
  show ?case
  proof (cases "f x \<in> S")
    case True
    then have "S \<union> f ` set (x # xs) = S \<union> f ` set xs" by auto
    with True Cons show ?thesis by (simp add: fresh_Cons)
  next
    case False
    have "S \<union> f ` set (x # xs) = insert (f x) S \<union> f ` set xs" by auto
    with False Cons show ?thesis by (simp add: fresh_Cons)
  qed
qed

lemma fresh_empty: "fresh f {} xs = first_seen f xs"
  by (simp add: fresh_def)

lemma fresh_keys: "f ` set (fresh f S xs) = f ` set xs - S"
proof (induction xs arbitrary: S)
  case Nil
  then show ?case by simp
next
  case (Cons x xs)
  then show ?case by (auto simp: fresh_Cons)
qed

lemma fresh_distinct: "distinct (map f (fresh f S xs))"
proof (induction xs arbitrary: S)
  case Nil
  then show ?case by simp
next
  case (Cons x xs)
  have "f x \<notin> f ` set (fresh f (insert (f x) S) xs)" by (simp add: fresh_keys)
  with Cons show ?case by (simp add: fresh_Cons)
qed

text \<open>What the loops of lines 335-346 add to the rows and to the two sets.\<close>

lemma admit_wh_rows_inv:
  "admit_wh_rows rp rs st = Inr st' \<Longrightarrow>
     wh_rows st' = wh_rows st @ fresh (wh_row_key rp) (Inr ` seen_wh st) rs \<and>
     Inr ` seen_wh st' = Inr ` seen_wh st \<union> wh_row_key rp ` set rs \<and>
     seen_pid st' = seen_pid st \<and> prod_rows st' = prod_rows st"
proof (induction rs arbitrary: st)
  case Nil
  then show ?case by simp
next
  case (Cons r rs)
  from Cons.prems obtain key where key: "wh_row_key rp r = Inr key"
    by (cases "wh_row_key rp r") auto
  show ?case
  proof (cases "key \<in> seen_wh st")
    case True
    with Cons.prems key have "admit_wh_rows rp rs st = Inr st'" by simp
    from Cons.IH [OF this] True key show ?thesis by (auto simp: fresh_Cons)
  next
    case False
    let ?st = "st\<lparr>seen_wh := insert key (seen_wh st), wh_rows := wh_rows st @ [r]\<rparr>"
    from Cons.prems key False have "admit_wh_rows rp rs ?st = Inr st'" by simp
    from Cons.IH [OF this] False key show ?thesis by (auto simp: fresh_Cons)
  qed
qed

lemma base_row_key:
  "base_product_cols rp d = Inr (Some r) \<Longrightarrow> dict_get r ''PRODUCT_ID'' = dict_get d ''id''"
  by (auto simp: base_product_cols_def read_fields_def PRODUCT_FIELDS_def dict_get_def
      split: if_splits sum.splits)

lemma rows_for_warehouses_base:
  "rows_for_warehouses rp d = Inr rs \<Longrightarrow> \<exists>b. base_product_cols rp d = Inr b"
  by (auto simp: rows_for_warehouses_def split: sum.splits)

lemma process_product_inv:
  assumes "process_product rp p st = Inr st'"
  shows "prod_rows st' = prod_rows st @ fresh product_key (Inr ` seen_pid st) (candidate_product_rows rp p) \<and>
     Inr ` seen_pid st' = Inr ` seen_pid st \<union> product_key ` set (candidate_product_rows rp p) \<and>
     wh_rows st' = wh_rows st @ fresh (wh_row_key rp) (Inr ` seen_wh st) (candidate_wh_rows rp p) \<and>
     Inr ` seen_wh st' = Inr ` seen_wh st \<union> wh_row_key rp ` set (candidate_wh_rows rp p)"
proof -
  from assms obtain d where p: "p = JDict d" by (cases p) (auto simp: process_product_def)
  show ?thesis
  proof (cases "dict_get d ''id'' = JNull")
    case True
    with assms p show ?thesis
      by (simp add: process_product_def candidate_product_rows_def candidate_wh_rows_def)
  next
    case False
    from assms p False obtain k where k: "hash_key (dict_get d ''id'') = Inr k"
      by (cases "hash_key (dict_get d ''id'')") (auto simp: process_product_def)
    from assms p False k obtain st1 where st1: "admit_product rp k d st = Inr st1"
      by (cases "admit_product rp k d st") (auto simp: process_product_def)
    from assms p False k st1 obtain rs where rs: "rows_for_warehouses rp d = Inr rs"
      by (cases "rows_for_warehouses rp d") (auto simp: process_product_def)
    from assms p False k st1 rs have wh: "admit_wh_rows rp rs st1 = Inr st'"
      by (simp add: process_product_def)
    from rows_for_warehouses_base [OF rs] obtain b where b: "base_product_cols rp d = Inr b" ..
    have cw: "candidate_wh_rows rp p = rs"
      using p False rs by (simp add: candidate_wh_rows_def)
    have prod: "prod_rows st1 = prod_rows st @ fresh product_key (Inr ` seen_pid st) (candidate_product_rows rp p) \<and>
        Inr ` seen_pid st1 = Inr ` seen_pid st \<union> product_key ` set (candidate_product_rows rp p) \<and>
        wh_rows st1 = wh_rows st \<and> seen_wh st1 = seen_wh st"
    proof (cases b)
      case None
      with st1 b p False show ?thesis
        by (auto simp: admit_product_def candidate_product_rows_def split: if_splits)
    next
      case (Some r)
      have key: "product_key r = Inr k"
        using base_row_key [of rp d r] b Some k by (simp add: product_key_def)
      have cp: "candidate_product_rows rp p = [r]"
        using p False b Some by (simp add: candidate_product_rows_def)
      show ?thesis
        using st1 b Some key by (auto simp: admit_product_def cp fresh_Cons split: if_splits)
    qed
    from admit_wh_rows_inv [OF wh] prod cw show ?thesis by simp
  qed
qed

lemma process_products_inv:
  "process_products rp ps st = Inr st' \<Longrightarrow>
     prod_rows st' = prod_rows st @
        fresh product_key (Inr ` seen_pid st) (concat (map (candidate_product_rows rp) ps)) \<and>
     Inr ` seen_pid st' = Inr ` seen_pid st \<union>
        product_key ` set (concat (map (candidate_product_rows rp) ps)) \<and>
     wh_rows st' = wh_rows st @
        fresh (wh_row_key rp) (Inr ` seen_wh st) (concat (map (candidate_wh_rows rp) ps)) \<and>
     Inr ` seen_wh st' = Inr ` seen_wh st \<union>
        wh_row_key rp ` set (concat (map (candidate_wh_rows rp) ps))"
proof (induction ps arbitrary: st)
  case Nil
  then show ?case by simp
next
  case (Cons p ps)
  from Cons.prems obtain st1 where st1: "process_product rp p st = Inr st1"
    by (cases "process_product rp p st") auto
  with Cons.prems have rest: "process_products rp ps st1 = Inr st'" by simp
  note a = process_product_inv [OF st1]
  note b = Cons.IH [OF rest]
  show ?case
  proof (intro conjI)
    show "prod_rows st' = prod_rows st @
        fresh product_key (Inr ` seen_pid st) (concat (map (candidate_product_rows rp) (p # ps)))"
      using a b by (simp add: fresh_append)
    show "wh_rows st' = wh_rows st @
        fresh (wh_row_key rp) (Inr ` seen_wh st) (concat (map (candidate_wh_rows rp) (p # ps)))"
      using a b by (simp add: fresh_append)
    show "Inr ` seen_pid st' = Inr ` seen_pid st \<union>
        product_key ` set (concat (map (candidate_product_rows rp) (p # ps)))"
      using a b by (simp add: image_Un Un_assoc)
    show "Inr ` seen_wh st' = Inr ` seen_wh st \<union>
        wh_row_key rp ` set (concat (map (candidate_wh_rows rp) (p # ps)))"
      using a b by (simp add: image_Un Un_assoc)
  qed
qed

lemma process_batches_inv:
  "process_batches rp batches seen = Inr outs \<Longrightarrow>
     concat (map fst outs) =
       fresh product_key (Inr ` fst seen) (concat (map (candidate_product_rows rp) (concat batches))) \<and>
     concat (map snd outs) =
       fresh (wh_row_key rp) (Inr ` snd seen) (concat (map (candidate_wh_rows rp) (concat batches)))"
proof (induction batches arbitrary: seen outs)
  case Nil
  then show ?case by simp
next
  case (Cons batch batches)
  let ?st0 = "\<lparr>seen_pid = fst seen, seen_wh = snd seen, prod_rows = [], wh_rows = []\<rparr>"
  from Cons.prems obtain st where st: "process_products rp batch ?st0 = Inr st"
    by (cases "process_products rp batch ?st0") auto
  with Cons.prems obtain outs' where outs': "process_batches rp batches (seen_pid st, seen_wh st) = Inr outs'"
    by (cases "process_batches rp batches (seen_pid st, seen_wh st)") auto
  with Cons.prems st have outs: "outs = (prod_rows st, wh_rows st) # outs'" by simp
  note a = process_products_inv [OF st]
  note b = Cons.IH [OF outs']
  show ?case using a b by (simp add: outs fresh_append)
qed

text \<open>
  C2. When the loop over the batches of a run does not raise: the product rows it
  admits, over all batches, are the first-seen ones among the product rows of the
  records with an id, by product id, and the warehouse rows those among the warehouse
  rows of these records, by the triple of product id, warehouse id and text of the
  updated stamp. So no two admitted rows have the same key, and every key offered is
  admitted once: the same raw product twice gives one product row, and two warehouse
  entries with the same triple give one warehouse row.
\<close>

theorem dedup_first_seen_wins:
  assumes "main_loop rp batches = Inr outs"
  shows "concat (map fst outs) =
           first_seen product_key (concat (map (candidate_product_rows rp) (concat batches))) \<and>
         concat (map snd outs) =
           first_seen (wh_row_key rp) (concat (map (candidate_wh_rows rp) (concat batches))) \<and>
         distinct (map product_key (concat (map fst outs))) \<and>
         distinct (map (wh_row_key rp) (concat (map snd outs))) \<and>
         product_key ` set (concat (map fst outs)) =
           product_key ` set (concat (map (candidate_product_rows rp) (concat batches))) \<and>
         wh_row_key rp ` set (concat (map snd outs)) =
           wh_row_key rp ` set (concat (map (candidate_wh_rows rp) (concat batches)))"
proof -
  from assms have "process_batches rp batches ({}, {}) = Inr outs" by (simp add: main_loop_def)
  from process_batches_inv [OF this]
  have a: "concat (map fst outs) =
       fresh product_key {} (concat (map (candidate_product_rows rp) (concat batches)))"
    and b: "concat (map snd outs) =
       fresh (wh_row_key rp) {} (concat (map (candidate_wh_rows rp) (concat batches)))"
    by simp_all
  show ?thesis
    unfolding a b by (simp add: fresh_distinct fresh_keys) (simp add: fresh_empty)
qed

theorem dedup_first_seen_wins_witness:
  "main_loop (\<lambda>v. []) [[JDict example_product], [JDict example_product]] =
     Inr [([example_row], [example_row @ read_fields WAREHOUSE_FIELDS example_warehouse]), ([], [])] \<and>
   first_seen product_key
     (concat (map (candidate_product_rows (\<lambda>v. [])) [JDict example_product, JDict example_product])) =
     [example_row] \<and>
   first_seen (wh_row_key (\<lambda>v. []))
     (concat (map (candidate_wh_rows (\<lambda>v. [])) [JDict example_product, JDict example_product])) =
     [example_row @ read_fields WAREHOUSE_FIELDS example_warehouse]"
proof -
  let ?rp = "\<lambda>v::json. []::string"
  let ?bs = "[[JDict example_product], [JDict example_product]]"
  let ?outs = "[([example_row], [example_row @ read_fields WAREHOUSE_FIELDS example_warehouse]), ([], [])]"
  have run: "main_loop ?rp ?bs = Inr ?outs"
    by code_simp
  from dedup_first_seen_wins [OF run] run show ?thesis by simp
qed

section \<open>Properties of the cleaning stage\<close>

lemma series_length [simp]: "length (series col f) = length col"
  by (simp add: series_def)

lemma series_nth [simp]: "i < length col \<Longrightarrow> series col f ! i = f i"
  by (simp add: series_def)

lemma convert_length: "convert f col = Inr new \<Longrightarrow> length new = length col"
  by (auto simp: convert_def split: sum.splits)

lemma strip_tz_length: "length (strip_tz pd s) = length s"
  by (auto simp: strip_tz_def dest!: convert_length split: sum.splits)

lemma astype_Int64_nth:
  "astype_Int64 xs = Inr cs \<Longrightarrow>
     length cs = length xs \<and> (\<forall>i<length xs. to_Int64 (xs ! i) = Inr (cs ! i))"
proof (induction xs arbitrary: cs)
  case Nil
  then show ?case by simp
next
  case (Cons x xs)
  from Cons.prems obtain c cs' where c: "to_Int64 x = Inr c" and cs': "astype_Int64 xs = Inr cs'"
    and cs: "cs = c # cs'"
    by (auto split: sum.splits)
  from Cons.IH [OF cs'] c cs show ?case by (auto simp: nth_Cons split: nat.splits)
qed

lemma quantity_value_not_null: "to_Int64 (round0 (fillna0 x)) = Inr c \<Longrightarrow> \<not> is_null c"
  by (cases x) (auto simp: to_Int64_def round0_def fillna0_def split: if_splits)

lemma quantity_value_unparsable: "to_Int64 (round0 (fillna0 NaN)) = Inr (Int64 (Some 0))"
  by (simp add: to_Int64_def round0_def fillna0_def round_half_even_def)

lemma clean_quantity_result:
  assumes "clean_quantity pd col = Inr new"
  shows "length new = length col"
    and "\<forall>x\<in>set new. \<not> is_null x"
    and "to_numeric pd col = Inr f \<Longrightarrow> i < length col \<Longrightarrow> f i = NaN \<Longrightarrow> new ! i = Int64 (Some 0)"
proof -
  from assms obtain xs where xs: "convert (to_numeric pd) col = Inr xs"
    and new: "astype_Int64 (map (\<lambda>x. round0 (fillna0 x)) xs) = Inr new"
    by (auto simp: clean_quantity_def split: sum.splits)
  note n = astype_Int64_nth [OF new]
  from n convert_length [OF xs] show len: "length new = length col" by simp
  show "\<forall>x\<in>set new. \<not> is_null x"
  proof
    fix x assume "x \<in> set new"
    then obtain j where j: "j < length new" "new ! j = x" by (auto simp: in_set_conv_nth)
    with n have "to_Int64 (round0 (fillna0 (xs ! j))) = Inr x" by simp
    then show "\<not> is_null x" by (rule quantity_value_not_null)
  qed
  assume f: "to_numeric pd col = Inr f" and i: "i < length col" and nan: "f i = NaN"
  from f xs have "xs = series col f" by (simp add: convert_def)
  with i nan have "xs ! i = NaN" by simp
  moreover from n i convert_length [OF xs]
  have "to_Int64 (round0 (fillna0 (xs ! i))) = Inr (new ! i)" by simp
  ultimately show "new ! i = Int64 (Some 0)" by (simp add: quantity_value_unparsable)
qed

lemma keeps_length_clean:
  "keeps_length (clean_timestamp pd)" "keeps_length (clean_currency pd)"
  "keeps_length (clean_quantity pd)" "keeps_length (clean_numeric pd)" "keeps_length (clean_flag pd)"
  by (auto simp: keeps_length_def clean_timestamp_def clean_currency_def clean_numeric_def
      clean_flag_def strip_tz_length clean_quantity_result(1) dest!: convert_length split: sum.splits)

lemma map_of_set_column:
  "map_of (map (\<lambda>(n, col). if n = c then (n, new) else (n, col)) xs) c' =
     (if c' = c then map_option (\<lambda>_. new) (map_of xs c') else map_of xs c')"
  by (induction xs) auto

lemma has_column_map_of: "has_column df c \<longleftrightarrow> map_of (cols df) c \<noteq> None"
  by (simp add: has_column_def map_of_eq_None_iff)

lemma labels_set_column [simp]: "map fst (cols (set_column c new df)) = map fst (cols df)"
  by (simp add: set_column_def case_prod_beta)

lemma nrows_set_column [simp]: "nrows (set_column c new df) = nrows df"
  by (simp add: set_column_def)

lemma has_column_labels: "has_column df c \<longleftrightarrow> c \<in> set (map fst (cols df))"
  by (simp add: has_column_def)

lemma has_column_set_column [simp]: "has_column (set_column c new df) c' = has_column df c'"
  by (simp add: has_column_labels)

lemma column_set_column:
  "column (set_column c new df) c' = (if c' = c \<and> has_column df c then new else column df c')"
  by (auto simp: column_def set_column_def map_of_set_column has_column_map_of split: option.splits)

lemma lengths_set_column:
  "list_all (\<lambda>col. length (snd col) = n) (cols df) \<Longrightarrow> length new = n \<Longrightarrow>
     list_all (\<lambda>col. length (snd col) = n) (cols (set_column c new df))"
  by (auto simp: set_column_def list_all_iff)

lemma column_length:
  assumes "list_all (\<lambda>col. length (snd col) = n) (cols df)" and "has_column df c"
  shows "length (column df c) = n"
proof -
  from assms(2) obtain col where col: "map_of (cols df) c = Some col"
    by (auto simp: has_column_map_of)
  then have "(c, col) \<in> set (cols df)" by (rule map_of_SomeD)
  with assms(1) have "length col = n" by (auto simp: list_all_iff)
  with col show ?thesis by (simp add: column_def)
qed

text \<open>What a loop of column updates leaves of a frame.\<close>

lemma update_column_result:
  assumes "update_column f c df = Inr df'"
  shows "map fst (cols df') = map fst (cols df)" and "nrows df' = nrows df"
    and "has_column df c \<Longrightarrow> f (column df c) = Inr (column df' c)"
    and "c' \<noteq> c \<or> \<not> has_column df c \<Longrightarrow> column df' c' = column df c'"
    and "keeps_length f \<Longrightarrow> list_all (\<lambda>col. length (snd col) = nrows df) (cols df) \<Longrightarrow>
           list_all (\<lambda>col. length (snd col) = nrows df) (cols df')"
  using assms
  by (auto simp: update_column_def column_set_column keeps_length_def
      intro!: lengths_set_column dest: column_length split: if_splits sum.splits)

lemma update_columns_result:
  assumes "update_columns f cs df = Inr df'" and "distinct cs"
  shows "map fst (cols df') = map fst (cols df) \<and> nrows df' = nrows df \<and>
     (\<forall>c\<in>set cs. has_column df c \<longrightarrow> f (column df c) = Inr (column df' c)) \<and>
     (\<forall>c. c \<notin> set cs \<or> \<not> has_column df c \<longrightarrow> column df' c = column df c) \<and>
     (keeps_length f \<and> list_all (\<lambda>col. length (snd col) = nrows df) (cols df) \<longrightarrow>
        list_all (\<lambda>col. length (snd col) = nrows df) (cols df'))"
  using assms
proof (induction cs arbitrary: df)
  case Nil
  then show ?case by simp
next
  case (Cons c cs)
  from Cons.prems obtain d where d: "update_column f c df = Inr d" and rest: "update_columns f cs d = Inr df'"
    by (auto split: sum.splits)
  note u = update_column_result [OF d]
  from Cons.prems have dist: "distinct cs" and notin: "c \<notin> set cs" by simp_all
  note ih = Cons.IH [OF rest dist]
  have hc: "has_column d x = has_column df x" for x
    using u(1) by (simp add: has_column_labels)
  show ?case
  proof (intro conjI ballI allI impI)
    show "map fst (cols df') = map fst (cols df)" using ih u(1) by simp
    show "nrows df' = nrows df" using ih u(2) by simp
  next
    fix x assume x: "x \<in> set (c # cs)" and h: "has_column df x"
    show "f (column df x) = Inr (column df' x)"
    proof (cases "x = c")
      case True
      with ih notin have "column df' c = column d c" by blast
      with u(3) h True show ?thesis by simp
    next
      case False
      with x have xs: "x \<in> set cs" by simp
      from u(4) [of x] False have "column d x = column df x" by simp
      moreover from ih xs h hc have "f (column d x) = Inr (column df' x)" by blast
      ultimately show ?thesis by simp
    qed
  next
    fix x assume x: "x \<notin> set (c # cs) \<or> \<not> has_column df x"
    then have "x \<noteq> c \<or> \<not> has_column df c" by auto
    then have "column d x = column df x" by (rule u(4))
    moreover from x hc have "x \<notin> set cs \<or> \<not> has_column d x" by auto
    with ih have "column df' x = column d x" by blast
    ultimately show "column df' x = column df x" by simp
  next
    assume k: "keeps_length f \<and> list_all (\<lambda>col. length (snd col) = nrows df) (cols df)"
    then have "list_all (\<lambda>col. length (snd col) = nrows df) (cols d)" using u(5) by blast
    with ih k u(2) show "list_all (\<lambda>col. length (snd col) = nrows df) (cols df')" by simp
  qed
qed

lemma reindex_labels [simp]: "map fst (cols (reindex target df)) = target"
  by (simp add: reindex_def comp_def)

lemma reindex_nrows [simp]: "nrows (reindex target df) = nrows df"
  by (simp add: reindex_def)

lemma column_reindex:
  "c \<in> set target \<Longrightarrow>
     column (reindex target df) c =
       (if has_column df c then column df c else replicate (nrows df) (Float NaN))"
proof -
  have "c \<in> set t \<Longrightarrow> map_of (map (\<lambda>c. (c, g c)) t) c = Some (g c)" for t and g :: "string \<Rightarrow> cell list"
    by (induction t) auto
  then show "c \<in> set target \<Longrightarrow> ?thesis" by (simp add: column_def reindex_def)
qed

lemma reindex_lengths:
  "list_all (\<lambda>col. length (snd col) = nrows df) (cols df) \<Longrightarrow>
     list_all (\<lambda>col. length (snd col) = nrows df) (cols (reindex target df))"
  by (auto simp: reindex_def list_all_iff dest: column_length [unfolded list_all_iff])


lemma and_then_Inr: "and_then r f = Inr y \<longleftrightarrow> (\<exists>x. r = Inr x \<and> f x = Inr y)"
  by (cases r) (simp_all add: and_then_def)

lemma product_quantity_labels:
  assumes "c \<in> set PRODUCT_QTY_COLS"
  shows "c \<noteq> ''UPDATED''" and "c \<notin> set [''PRICE'', ''COST'']"
    and "c \<notin> set [''HEIGHT'', ''WEIGHT'', ''WIDTH'', ''PRODUCT_ID'']"
    and "c \<in> set PRODUCT_TARGET_COLS"
  using assms by (auto simp: PRODUCT_QTY_COLS_def PRODUCT_TARGET_COLS_def)

lemma warehouse_quantity_labels:
  assumes "c \<in> set (WAREHOUSE_QTY_COLS @ [''PRODUCT_ID'', ''WH_ID''])"
  shows "c \<notin> set [''UPDATED'', ''WH_UPDATED'', ''WH_CREATED'', ''WH_LAST_CHANGE'']"
    and "c \<notin> set [''PRICE'', ''COST'']"
    and "c \<notin> set [''HEIGHT'', ''WEIGHT'', ''WIDTH'']"
    and "c \<notin> set [''WH_SHIP_CFG'', ''WH_IS_DEFAULT'']"
    and "c \<in> set WAREHOUSE_TARGET_COLS"
  using assms by (auto simp: WAREHOUSE_QTY_COLS_def WAREHOUSE_TARGET_COLS_def)

lemma distinct_label_lists:
  "distinct PRODUCT_QTY_COLS" "distinct (WAREHOUSE_QTY_COLS @ [''PRODUCT_ID'', ''WH_ID''])"
  "distinct [''PRICE'', ''COST'']" "distinct [''HEIGHT'', ''WEIGHT'', ''WIDTH'', ''PRODUCT_ID'']"
  "distinct [''HEIGHT'', ''WEIGHT'', ''WIDTH'']" "distinct [''WH_SHIP_CFG'', ''WH_IS_DEFAULT'']"
  "distinct [''UPDATED'', ''WH_UPDATED'', ''WH_CREATED'', ''WH_LAST_CHANGE'']"
  by (simp_all add: PRODUCT_QTY_COLS_def WAREHOUSE_QTY_COLS_def)

text \<open>A quantity column that the input has goes through \<^verbatim>\<open>clean_quantity\<close> and nothing else.\<close>

lemma clean_products_quantity:
  assumes out: "clean_products_df pd df = Inr out" and ne: "\<not> empty_frame df"
    and c: "c \<in> set PRODUCT_QTY_COLS" and h: "has_column df c"
  shows "clean_quantity pd (column df c) = Inr (column out c)"
proof -
  from out ne obtain df1 df2 df3 df4 where
    s1: "update_column (clean_timestamp pd) ''UPDATED'' df = Inr df1" and
    s2: "update_columns (clean_currency pd) [''PRICE'', ''COST''] df1 = Inr df2" and
    s3: "update_columns (clean_quantity pd) PRODUCT_QTY_COLS df2 = Inr df3" and
    s4: "update_columns (clean_numeric pd) [''HEIGHT'', ''WEIGHT'', ''WIDTH'', ''PRODUCT_ID''] df3 = Inr df4" and
    o: "out = reindex PRODUCT_TARGET_COLS df4"
    by (auto simp: clean_products_df_def and_then_Inr)
  note l = product_quantity_labels [OF c]
  note u1 = update_column_result [OF s1]
  note u2 = update_columns_result [OF s2 distinct_label_lists(3)]
  note u3 = update_columns_result [OF s3 distinct_label_lists(1)]
  note u4 = update_columns_result [OF s4 distinct_label_lists(4)]
  have h1: "has_column df1 c" using h u1(1) by (simp add: has_column_labels)
  have h2: "has_column df2 c" using h1 u2 by (simp add: has_column_labels)
  have h3: "has_column df3 c" using h2 u3 by (simp add: has_column_labels)
  have h4: "has_column df4 c" using h3 u4 by (simp add: has_column_labels)
  have "column df1 c = column df c" using u1(4) [of c] l(1) by simp
  moreover have "column df2 c = column df1 c" using u2 l(2) by blast
  moreover have "clean_quantity pd (column df2 c) = Inr (column df3 c)" using u3 c h2 by blast
  moreover have "column df4 c = column df3 c" using u4 l(3) by blast
  moreover have "column out c = column df4 c" using o h4 l(4) by (simp add: column_reindex)
  ultimately show ?thesis by simp
qed

lemma clean_wh_quantity:
  assumes out: "clean_wh_df pd df = Inr out" and ne: "\<not> empty_frame df"
    and c: "c \<in> set (WAREHOUSE_QTY_COLS @ [''PRODUCT_ID'', ''WH_ID''])" and h: "has_column df c"
  shows "clean_quantity pd (column df c) = Inr (column out c)"
proof -
  from out ne obtain df1 df2 df3 df4 df5 where
    s1: "update_columns (clean_timestamp pd)
           [''UPDATED'', ''WH_UPDATED'', ''WH_CREATED'', ''WH_LAST_CHANGE''] df = Inr df1" and
    s2: "update_columns (clean_currency pd) [''PRICE'', ''COST''] df1 = Inr df2" and
    s3: "update_columns (clean_quantity pd) (WAREHOUSE_QTY_COLS @ [''PRODUCT_ID'', ''WH_ID'']) df2 = Inr df3" and
    s4: "update_columns (clean_numeric pd) [''HEIGHT'', ''WEIGHT'', ''WIDTH''] df3 = Inr df4" and
    s5: "update_columns (clean_flag pd) [''WH_SHIP_CFG'', ''WH_IS_DEFAULT''] df4 = Inr df5" and
    o: "out = reindex WAREHOUSE_TARGET_COLS df5"
    by (auto simp: clean_wh_df_def and_then_Inr)
  note l = warehouse_quantity_labels [OF c]
  note u1 = update_columns_result [OF s1 distinct_label_lists(7)]
  note u2 = update_columns_result [OF s2 distinct_label_lists(3)]
  note u3 = update_columns_result [OF s3 distinct_label_lists(2)]
  note u4 = update_columns_result [OF s4 distinct_label_lists(5)]
  note u5 = update_columns_result [OF s5 distinct_label_lists(6)]
  have h1: "has_column df1 c" using h u1 by (simp add: has_column_labels)
  have h2: "has_column df2 c" using h1 u2 by (simp add: has_column_labels)
  have h3: "has_column df3 c" using h2 u3 by (simp add: has_column_labels)
  have h4: "has_column df4 c" using h3 u4 by (simp add: has_column_labels)
  have h5: "has_column df5 c" using h4 u5 by (simp add: has_column_labels)
  have "column df1 c = column df c" using u1 l(1) by blast
  moreover have "column df2 c = column df1 c" using u2 l(2) by blast
  moreover have "clean_quantity pd (column df2 c) = Inr (column df3 c)" using u3 c h2 by blast
  moreover have "column df4 c = column df3 c" using u4 l(3) by blast
  moreover have "column df5 c = column df4 c" using u5 l(4) by blast
  moreover have "column out c = column df5 c" using o h5 l(5) by (simp add: column_reindex)
  ultimately show ?thesis by simp
qed

text \<open>The shape of the cleaned frame.\<close>

lemma clean_products_shape:
  assumes out: "clean_products_df pd df = Inr out"
  shows "map fst (cols out) = PRODUCT_TARGET_COLS" and "nrows out = nrows df"
    and "list_all (\<lambda>col. length (snd col) = nrows df) (cols df) \<Longrightarrow>
           list_all (\<lambda>col. length (snd col) = nrows df) (cols out)"
    and "c \<in> set PRODUCT_TARGET_COLS \<Longrightarrow> \<not> has_column df c \<Longrightarrow>
           column out c = replicate (nrows df) (Float NaN)"
proof -
  have "map fst (cols out) = PRODUCT_TARGET_COLS \<and> nrows out = nrows df \<and>
      (list_all (\<lambda>col. length (snd col) = nrows df) (cols df) \<longrightarrow>
           list_all (\<lambda>col. length (snd col) = nrows df) (cols out)) \<and>
      (c \<in> set PRODUCT_TARGET_COLS \<and> \<not> has_column df c \<longrightarrow>
           column out c = replicate (nrows df) (Float NaN))"
  proof (cases "empty_frame df")
    case True
    with out have "out = reindex PRODUCT_TARGET_COLS df" by (simp add: clean_products_df_def)
    then show ?thesis by (auto simp: column_reindex reindex_lengths)
  next
    case False
    with out obtain df1 df2 df3 df4 where
      s1: "update_column (clean_timestamp pd) ''UPDATED'' df = Inr df1" and
      s2: "update_columns (clean_currency pd) [''PRICE'', ''COST''] df1 = Inr df2" and
      s3: "update_columns (clean_quantity pd) PRODUCT_QTY_COLS df2 = Inr df3" and
      s4: "update_columns (clean_numeric pd) [''HEIGHT'', ''WEIGHT'', ''WIDTH'', ''PRODUCT_ID''] df3 = Inr df4" and
      o: "out = reindex PRODUCT_TARGET_COLS df4"
      by (auto simp: clean_products_df_def and_then_Inr)
    note u1 = update_column_result [OF s1]
    note u2 = update_columns_result [OF s2 distinct_label_lists(3)]
    note u3 = update_columns_result [OF s3 distinct_label_lists(1)]
    note u4 = update_columns_result [OF s4 distinct_label_lists(4)]
    have n: "nrows df4 = nrows df" using u1(2) u2 u3 u4 by simp
    have lab: "map fst (cols df4) = map fst (cols df)" using u1(1) u2 u3 u4 by simp
    have len: "list_all (\<lambda>col. length (snd col) = nrows df4) (cols df4)"
      if w: "list_all (\<lambda>col. length (snd col) = nrows df) (cols df)"
    proof -
      have "list_all (\<lambda>col. length (snd col) = nrows df) (cols df1)"
        using u1(5) keeps_length_clean(1) w by blast
      then have "list_all (\<lambda>col. length (snd col) = nrows df1) (cols df2)"
        using u1(2) u2 keeps_length_clean(2) by simp
      then have "list_all (\<lambda>col. length (snd col) = nrows df2) (cols df3)"
        using u2 u3 keeps_length_clean(3) by simp
      then have "list_all (\<lambda>col. length (snd col) = nrows df3) (cols df4)"
        using u3 u4 keeps_length_clean(4) by simp
      with u4 show ?thesis by simp
    qed
    have absent: "\<not> has_column df4 c" if "\<not> has_column df c"
      using that lab by (simp add: has_column_labels)
    show ?thesis
      using o n len absent reindex_lengths [of df4 PRODUCT_TARGET_COLS]
      by (auto simp: column_reindex)
  qed
  then show "map fst (cols out) = PRODUCT_TARGET_COLS" and "nrows out = nrows df"
    and "list_all (\<lambda>col. length (snd col) = nrows df) (cols df) \<Longrightarrow>
           list_all (\<lambda>col. length (snd col) = nrows df) (cols out)"
    and "c \<in> set PRODUCT_TARGET_COLS \<Longrightarrow> \<not> has_column df c \<Longrightarrow>
           column out c = replicate (nrows df) (Float NaN)"
    by blast+
qed

lemma clean_wh_shape:
  assumes out: "clean_wh_df pd df = Inr out"
  shows "map fst (cols out) = WAREHOUSE_TARGET_COLS" and "nrows out = nrows df"
    and "list_all (\<lambda>col. length (snd col) = nrows df) (cols df) \<Longrightarrow>
           list_all (\<lambda>col. length (snd col) = nrows df) (cols out)"
    and "c \<in> set WAREHOUSE_TARGET_COLS \<Longrightarrow> \<not> has_column df c \<Longrightarrow>
           column out c = replicate (nrows df) (Float NaN)"
proof -
  have "map fst (cols out) = WAREHOUSE_TARGET_COLS \<and> nrows out = nrows df \<and>
      (list_all (\<lambda>col. length (snd col) = nrows df) (cols df) \<longrightarrow>
           list_all (\<lambda>col. length (snd col) = nrows df) (cols out)) \<and>
      (c \<in> set WAREHOUSE_TARGET_COLS \<and> \<not> has_column df c \<longrightarrow>
           column out c = replicate (nrows df) (Float NaN))"
  proof (cases "empty_frame df")
    case True
    with out have "out = reindex WAREHOUSE_TARGET_COLS df" by (simp add: clean_wh_df_def)
    then show ?thesis by (auto simp: column_reindex reindex_lengths)
  next
    case False
    with out obtain df1 df2 df3 df4 df5 where
      s1: "update_columns (clean_timestamp pd)
             [''UPDATED'', ''WH_UPDATED'', ''WH_CREATED'', ''WH_LAST_CHANGE''] df = Inr df1" and
      s2: "update_columns (clean_currency pd) [''PRICE'', ''COST''] df1 = Inr df2" and
      s3: "update_columns (clean_quantity pd) (WAREHOUSE_QTY_COLS @ [''PRODUCT_ID'', ''WH_ID'']) df2 = Inr df3" and
      s4: "update_columns (clean_numeric pd) [''HEIGHT'', ''WEIGHT'', ''WIDTH''] df3 = Inr df4" and
      s5: "update_columns (clean_flag pd) [''WH_SHIP_CFG'', ''WH_IS_DEFAULT''] df4 = Inr df5" and
      o: "out = reindex WAREHOUSE_TARGET_COLS df5"
      by (auto simp: clean_wh_df_def and_then_Inr)
    note u1 = update_columns_result [OF s1 distinct_label_lists(7)]
    note u2 = update_columns_result [OF s2 distinct_label_lists(3)]
    note u3 = update_columns_result [OF s3 distinct_label_lists(2)]
    note u4 = update_columns_result [OF s4 distinct_label_lists(5)]
    note u5 = update_columns_result [OF s5 distinct_label_lists(6)]
    have n: "nrows df5 = nrows df" using u1 u2 u3 u4 u5 by simp
    have lab: "map fst (cols df5) = map fst (cols df)" using u1 u2 u3 u4 u5 by simp
    have len: "list_all (\<lambda>col. length (snd col) = nrows df5) (cols df5)"
      if w: "list_all (\<lambda>col. length (snd col) = nrows df) (cols df)"
    proof -
      have "list_all (\<lambda>col. length (snd col) = nrows df) (cols df1)"
        using u1 keeps_length_clean(1) w by blast
      then have "list_all (\<lambda>col. length (snd col) = nrows df1) (cols df2)"
        using u1 u2 keeps_length_clean(2) by simp
      then have "list_all (\<lambda>col. length (snd col) = nrows df2) (cols df3)"
        using u2 u3 keeps_length_clean(3) by simp
      then have "list_all (\<lambda>col. length (snd col) = nrows df3) (cols df4)"
        using u3 u4 keeps_length_clean(4) by simp
      then have "list_all (\<lambda>col. length (snd col) = nrows df4) (cols df5)"
        using u4 u5 keeps_length_clean(5) by simp
      with u5 show ?thesis by simp
    qed
    have absent: "\<not> has_column df5 c" if "\<not> has_column df c"
      using that lab by (simp add: has_column_labels)
    show ?thesis
      using o n len absent reindex_lengths [of df5 WAREHOUSE_TARGET_COLS]
      by (auto simp: column_reindex)
  qed
  then show "map fst (cols out) = WAREHOUSE_TARGET_COLS" and "nrows out = nrows df"
    and "list_all (\<lambda>col. length (snd col) = nrows df) (cols df) \<Longrightarrow>
           list_all (\<lambda>col. length (snd col) = nrows df) (cols out)"
    and "c \<in> set WAREHOUSE_TARGET_COLS \<Longrightarrow> \<not> has_column df c \<Longrightarrow>
           column out c = replicate (nrows df) (Float NaN)"
    by blast+
qed

lemma distinct_targets: "distinct PRODUCT_TARGET_COLS" "distinct WAREHOUSE_TARGET_COLS"
  by (simp_all add: PRODUCT_TARGET_COLS_def WAREHOUSE_TARGET_COLS_def)

lemma present_quantity_not_null:
  assumes "wf_frame df" and "has_column df c"
    and "\<not> empty_frame df \<Longrightarrow> clean_quantity pd (column df c) = Inr (column out c)"
    and "empty_frame df \<Longrightarrow> column out c = column df c"
  shows "\<forall>x\<in>set (column out c). \<not> is_null x"
proof (cases "empty_frame df")
  case True
  from assms(2) have "cols df \<noteq> []" by (auto simp: has_column_def)
  with True have "nrows df = 0" by (simp add: empty_frame_def)
  with assms(1,2) have "length (column df c) = 0"
    using column_length [of "nrows df" df c] by (simp add: wf_frame_def)
  with assms(4) True show ?thesis by simp
next
  case False
  from clean_quantity_result(2) [OF assms(3) [OF False]] show ?thesis .
qed

lemma empty_frame_keeps_column:
  "empty_frame df \<Longrightarrow> clean_products_df pd df = Inr out \<Longrightarrow> c \<in> set PRODUCT_TARGET_COLS \<Longrightarrow>
     has_column df c \<Longrightarrow> column out c = column df c"
  "empty_frame df \<Longrightarrow> clean_wh_df pd df = Inr out' \<Longrightarrow> c \<in> set WAREHOUSE_TARGET_COLS \<Longrightarrow>
     has_column df c \<Longrightarrow> column out' c = column df c"
  by (auto simp: clean_products_df_def clean_wh_df_def column_reindex)

text \<open>
  What the cleaning guarantees for a well-formed frame whenever it returns: the result
  has exactly the target columns in the target order and as many rows as the input; a
  column that the loop of line 263, or of line 276, casts is non-null in every row when
  the input has it, and is filled with \<open>NaN\<close> by \<^verbatim>\<open>reindex\<close> when the input lacks it.
\<close>

lemma cleaned_frame_conforms:
  assumes "wf_frame df"
  shows "(clean_products_df pd df = Inr out \<longrightarrow>
            map fst (cols out) = PRODUCT_TARGET_COLS \<and> nrows out = nrows df \<and> wf_frame out \<and>
            (\<forall>c\<in>set PRODUCT_QTY_COLS.
               if has_column df c then (\<forall>x\<in>set (column out c). \<not> is_null x)
               else column out c = replicate (nrows df) (Float NaN))) \<and>
         (clean_wh_df pd df = Inr out \<longrightarrow>
            map fst (cols out) = WAREHOUSE_TARGET_COLS \<and> nrows out = nrows df \<and> wf_frame out \<and>
            (\<forall>c\<in>set (WAREHOUSE_QTY_COLS @ [''PRODUCT_ID'', ''WH_ID'']).
               if has_column df c then (\<forall>x\<in>set (column out c). \<not> is_null x)
               else column out c = replicate (nrows df) (Float NaN)))"
proof (intro conjI impI)
  assume out: "clean_products_df pd df = Inr out"
  note s = clean_products_shape [OF out]
  from assms have len: "list_all (\<lambda>col. length (snd col) = nrows df) (cols df)"
    by (simp add: wf_frame_def)
  show "map fst (cols out) = PRODUCT_TARGET_COLS" by (rule s(1))
  show "nrows out = nrows df" by (rule s(2))
  show "wf_frame out" using s(1,2) s(3) [OF len] by (simp add: wf_frame_def distinct_targets)
  show "\<forall>c\<in>set PRODUCT_QTY_COLS.
          if has_column df c then (\<forall>x\<in>set (column out c). \<not> is_null x)
          else column out c = replicate (nrows df) (Float NaN)"
  proof
    fix c assume c: "c \<in> set PRODUCT_QTY_COLS"
    then have t: "c \<in> set PRODUCT_TARGET_COLS" by (rule product_quantity_labels(4))
    show "if has_column df c then (\<forall>x\<in>set (column out c). \<not> is_null x)
          else column out c = replicate (nrows df) (Float NaN)"
    proof (cases "has_column df c")
      case True
      have "\<forall>x\<in>set (column out c). \<not> is_null x"
        using assms True
      proof (rule present_quantity_not_null)
        show "\<not> empty_frame df \<Longrightarrow> clean_quantity pd (column df c) = Inr (column out c)"
          using out c True by (intro clean_products_quantity)
        show "empty_frame df \<Longrightarrow> column out c = column df c"
          using out t True by (intro empty_frame_keeps_column(1))
      qed
      with True show ?thesis by simp
    next
      case False
      with s(4) [OF t] show ?thesis by simp
    qed
  qed
next
  assume out: "clean_wh_df pd df = Inr out"
  note s = clean_wh_shape [OF out]
  from assms have len: "list_all (\<lambda>col. length (snd col) = nrows df) (cols df)"
    by (simp add: wf_frame_def)
  show "map fst (cols out) = WAREHOUSE_TARGET_COLS" by (rule s(1))
  show "nrows out = nrows df" by (rule s(2))
  show "wf_frame out" using s(1,2) s(3) [OF len] by (simp add: wf_frame_def distinct_targets)
  show "\<forall>c\<in>set (WAREHOUSE_QTY_COLS @ [''PRODUCT_ID'', ''WH_ID'']).
          if has_column df c then (\<forall>x\<in>set (column out c). \<not> is_null x)
          else column out c = replicate (nrows df) (Float NaN)"
  proof
    fix c assume c: "c \<in> set (WAREHOUSE_QTY_COLS @ [''PRODUCT_ID'', ''WH_ID''])"
    then have t: "c \<in> set WAREHOUSE_TARGET_COLS" by (rule warehouse_quantity_labels(5))
    show "if has_column df c then (\<forall>x\<in>set (column out c). \<not> is_null x)
          else column out c = replicate (nrows df) (Float NaN)"
    proof (cases "has_column df c")
      case True
      have "\<forall>x\<in>set (column out c). \<not> is_null x"
        using assms True
      proof (rule present_quantity_not_null)
        show "\<not> empty_frame df \<Longrightarrow> clean_quantity pd (column df c) = Inr (column out c)"
          using out c True by (intro clean_wh_quantity)
        show "empty_frame df \<Longrightarrow> column out c = column df c"
          using out t True by (intro empty_frame_keeps_column(2))
      qed
      with True show ?thesis by simp
    next
      case False
      with s(4) [OF t] show ?thesis by simp
    qed
  qed
qed

text \<open>
  A column of the warehouse table that none of the loops of lines 271-281 names is
  handed on as it came in.
\<close>

lemma clean_wh_keeps_column:
  assumes out: "clean_wh_df pd df = Inr out" and ne: "\<not> empty_frame df"
    and c: "c \<in> set [''SKU'', ''NAME'', ''UPC'', ''ASIN'', ''COUNTRY'', ''TOTAL_ON_HAND'',
                      ''TOTAL_AVAILABLE'', ''TOTAL_COMMITTED'', ''TOTAL_ALLOCATED'', ''TOTAL_UNALLOCATED'',
                      ''TOTAL_MFG_ORDERED'', ''TO_BE_SHIPPED'', ''TAGS'', ''CARTS'', ''WH_NAME'', ''LOCATION'']"
    and h: "has_column df c"
  shows "column out c = column df c"
proof -
  from out ne obtain df1 df2 df3 df4 df5 where
    s1: "update_columns (clean_timestamp pd)
           [''UPDATED'', ''WH_UPDATED'', ''WH_CREATED'', ''WH_LAST_CHANGE''] df = Inr df1" and
    s2: "update_columns (clean_currency pd) [''PRICE'', ''COST''] df1 = Inr df2" and
    s3: "update_columns (clean_quantity pd) (WAREHOUSE_QTY_COLS @ [''PRODUCT_ID'', ''WH_ID'']) df2 = Inr df3" and
    s4: "update_columns (clean_numeric pd) [''HEIGHT'', ''WEIGHT'', ''WIDTH''] df3 = Inr df4" and
    s5: "update_columns (clean_flag pd) [''WH_SHIP_CFG'', ''WH_IS_DEFAULT''] df4 = Inr df5" and
    o: "out = reindex WAREHOUSE_TARGET_COLS df5"
    by (auto simp: clean_wh_df_def and_then_Inr)
  from c have l: "c \<notin> set [''UPDATED'', ''WH_UPDATED'', ''WH_CREATED'', ''WH_LAST_CHANGE'']"
    "c \<notin> set [''PRICE'', ''COST'']"
    "c \<notin> set (WAREHOUSE_QTY_COLS @ [''PRODUCT_ID'', ''WH_ID''])"
    "c \<notin> set [''HEIGHT'', ''WEIGHT'', ''WIDTH'']"
    "c \<notin> set [''WH_SHIP_CFG'', ''WH_IS_DEFAULT'']"
    "c \<in> set WAREHOUSE_TARGET_COLS"
    by (auto simp: WAREHOUSE_QTY_COLS_def WAREHOUSE_TARGET_COLS_def)
  note u1 = update_columns_result [OF s1 distinct_label_lists(7)]
  note u2 = update_columns_result [OF s2 distinct_label_lists(3)]
  note u3 = update_columns_result [OF s3 distinct_label_lists(2)]
  note u4 = update_columns_result [OF s4 distinct_label_lists(5)]
  note u5 = update_columns_result [OF s5 distinct_label_lists(6)]
  have "map fst (cols df5) = map fst (cols df)" using u1 u2 u3 u4 u5 by simp
  with h have h5: "has_column df5 c" by (simp add: has_column_labels)
  have "column df1 c = column df c" using u1 l(1) by blast
  moreover have "column df2 c = column df1 c" using u2 l(2) by blast
  moreover have "column df3 c = column df2 c" using u3 l(3) by blast
  moreover have "column df4 c = column df3 c" using u4 l(4) by blast
  moreover have "column df5 c = column df4 c" using u5 l(5) by blast
  moreover have "column out c = column df5 c" using o h5 l(6) by (simp add: column_reindex)
  ultimately show ?thesis by simp
qed

text \<open>
  C4. The product \<^verbatim>\<open>{id: 7, total_on_hand: "abc", warehouses: [{id: 5,
  physical_on_hand: "abc"}]}\<close> has one warehouse row, which \<^verbatim>\<open>rows_for_warehouses\<close> builds
  with all the columns of the product row. The loop of line 276 casts the ten warehouse
  quantities, \<^verbatim>\<open>PRODUCT_ID\<close> and \<^verbatim>\<open>WH_ID\<close>, and no loop of \<^verbatim>\<open>clean_wh_df\<close> touches the
  seven totals: whatever the conversions of the library do, the cleaned warehouse table,
  when there is one, still has the text \<^verbatim>\<open>abc\<close> in \<^verbatim>\<open>TOTAL_ON_HAND\<close> and \<^verbatim>\<open>None\<close>, a null,
  in \<^verbatim>\<open>TOTAL_AVAILABLE\<close>. With the stand-in library there is one, and its \<^verbatim>\<open>POH\<close> is 0.
  \<^verbatim>\<open>clean_products_df\<close> (line 263) casts the same two columns of the product row of
  this product to 0.
\<close>

theorem warehouse_totals_left_uncast:
  "rows_for_warehouses rp abc_product = Inr [abc_wh_row] \<and>
   (case clean_wh_df pd (DataFrame [abc_wh_row]) of
      Inl e \<Rightarrow> True
    | Inr out \<Rightarrow>
        column out ''TOTAL_ON_HAND'' = [Obj (JStr ''abc'')] \<and>
        column out ''TOTAL_AVAILABLE'' = [Obj JNull]) \<and>
   (case clean_wh_df example_pandas (DataFrame [abc_wh_row]) of
      Inl e \<Rightarrow> False
    | Inr out \<Rightarrow>
        map fst (cols out) = WAREHOUSE_TARGET_COLS \<and>
        column out ''TOTAL_ON_HAND'' = [Obj (JStr ''abc'')] \<and>
        column out ''TOTAL_AVAILABLE'' = [Obj JNull] \<and>
        column out ''POH'' = [Int64 (Some 0)]) \<and>
   is_null (Obj JNull) \<and>
   (case clean_products_df example_pandas (DataFrame [abc_row]) of
      Inl e \<Rightarrow> False
    | Inr out \<Rightarrow>
        column out ''TOTAL_ON_HAND'' = [Int64 (Some 0)] \<and>
        column out ''TOTAL_AVAILABLE'' = [Int64 (Some 0)])"
proof (intro conjI)
  show "rows_for_warehouses rp abc_product = Inr [abc_wh_row]"
    by (simp add: rows_for_warehouses_def base_product_cols_def FILTER_ARCHIVED_def join_carts_def
        join_carts_out_def join_tags_def join_tags_out_def py_or_def py_iter_def warehouse_row_def
        abc_wh_row_def abc_row_def abc_product_def dict_get_def)
next
  let ?df = "DataFrame [abc_wh_row]"
  have ne: "\<not> empty_frame ?df" by code_simp
  have h: "has_column ?df ''TOTAL_ON_HAND''" "has_column ?df ''TOTAL_AVAILABLE''" by code_simp+
  have v: "column ?df ''TOTAL_ON_HAND'' = [Obj (JStr ''abc'')]"
    "column ?df ''TOTAL_AVAILABLE'' = [Obj JNull]" by code_simp+
  show "case clean_wh_df pd ?df of
      Inl e \<Rightarrow> True
    | Inr out \<Rightarrow>
        column out ''TOTAL_ON_HAND'' = [Obj (JStr ''abc'')] \<and>
        column out ''TOTAL_AVAILABLE'' = [Obj JNull]"
  proof (cases "clean_wh_df pd ?df")
    case (Inl e)
    then show ?thesis by simp
  next
    case (Inr out)
    have "column out ''TOTAL_ON_HAND'' = column ?df ''TOTAL_ON_HAND''"
      by (rule clean_wh_keeps_column [OF Inr ne _ h(1)]) simp
    moreover have "column out ''TOTAL_AVAILABLE'' = column ?df ''TOTAL_AVAILABLE''"
      by (rule clean_wh_keeps_column [OF Inr ne _ h(2)]) simp
    ultimately show ?thesis using Inr v by simp
  qed
next
  show "case clean_wh_df example_pandas (DataFrame [abc_wh_row]) of
      Inl e \<Rightarrow> False
    | Inr out \<Rightarrow>
        map fst (cols out) = WAREHOUSE_TARGET_COLS \<and>
        column out ''TOTAL_ON_HAND'' = [Obj (JStr ''abc'')] \<and>
        column out ''TOTAL_AVAILABLE'' = [Obj JNull] \<and>
        column out ''POH'' = [Int64 (Some 0)]"
    by code_simp
next
  show "is_null (Obj JNull)" by simp
next
  show "case clean_products_df example_pandas (DataFrame [abc_row]) of
      Inl e \<Rightarrow> False
    | Inr out \<Rightarrow>
        column out ''TOTAL_ON_HAND'' = [Int64 (Some 0)] \<and>
        column out ''TOTAL_AVAILABLE'' = [Int64 (Some 0)]"
    by code_simp
qed

text \<open>
  C9. A value of a quantity column that pandas cannot parse as a number (the result of
  \<^verbatim>\<open>to_numeric\<close> at its index is \<open>NaN\<close>, as for the text \<^verbatim>\<open>abc\<close>) becomes the integer 0
  in the cleaned frame, not the missing value: \<^verbatim>\<open>fillna(0)\<close>, \<^verbatim>\<open>round(0)\<close> and the cast do
  not raise on it and give 0, in each of the seven total columns of the product table
  and in each of the ten quantity columns, \<^verbatim>\<open>PRODUCT_ID\<close> and \<^verbatim>\<open>WH_ID\<close> of the warehouse
  table.
\<close>

theorem unparsable_quantity_is_zero:
  assumes "wf_frame df" and "has_column df c" and "to_numeric pd (column df c) = Inr f"
    and "i < nrows df" and "f i = NaN"
  shows "to_Int64 (round0 (fillna0 NaN)) = Inr (Int64 (Some 0)) \<and>
     (c \<in> set PRODUCT_QTY_COLS \<and> clean_products_df pd df = Inr out \<longrightarrow>
        column out c ! i = Int64 (Some 0)) \<and>
     (c \<in> set (WAREHOUSE_QTY_COLS @ [''PRODUCT_ID'', ''WH_ID'']) \<and> clean_wh_df pd df = Inr out \<longrightarrow>
        column out c ! i = Int64 (Some 0))"
proof -
  from assms(2) have "cols df \<noteq> []" by (auto simp: has_column_def)
  with assms(4) have ne: "\<not> empty_frame df" by (simp add: empty_frame_def)
  from assms(1,2) have len: "length (column df c) = nrows df"
    using column_length [of "nrows df" df c] by (simp add: wf_frame_def)
  with assms(4) have i: "i < length (column df c)" by simp
  show ?thesis
  proof (intro conjI impI)
    show "to_Int64 (round0 (fillna0 NaN)) = Inr (Int64 (Some 0))" by (rule quantity_value_unparsable)
  next
    assume "c \<in> set PRODUCT_QTY_COLS \<and> clean_products_df pd df = Inr out"
    then have "clean_quantity pd (column df c) = Inr (column out c)"
      using ne assms(2) by (intro clean_products_quantity) simp_all
    from clean_quantity_result(3) [OF this assms(3) i assms(5)]
    show "column out c ! i = Int64 (Some 0)" .
  next
    assume "c \<in> set (WAREHOUSE_QTY_COLS @ [''PRODUCT_ID'', ''WH_ID'']) \<and> clean_wh_df pd df = Inr out"
    then have "clean_quantity pd (column df c) = Inr (column out c)"
      using ne assms(2) by (intro clean_wh_quantity) simp_all
    from clean_quantity_result(3) [OF this assms(3) i assms(5)]
    show "column out c ! i = Int64 (Some 0)" .
  qed
qed

theorem unparsable_quantity_is_zero_witness:
  "column (DataFrame [abc_row]) ''TOTAL_ON_HAND'' = [Obj (JStr ''abc'')] \<and>
   example_number (Obj (JStr ''abc'')) = NaN \<and>
   (\<exists>out. clean_products_df example_pandas (DataFrame [abc_row]) = Inr out \<and>
      column out ''TOTAL_ON_HAND'' ! 0 = Int64 (Some 0)) \<and>
   column (DataFrame [abc_wh_row]) ''POH'' = [Obj (JStr ''abc'')] \<and>
   (\<exists>out. clean_wh_df example_pandas (DataFrame [abc_wh_row]) = Inr out \<and>
      column out ''POH'' ! 0 = Int64 (Some 0))"
proof -
  let ?p = "DataFrame [abc_row]"
  let ?w = "DataFrame [abc_wh_row]"
  let ?fp = "\<lambda>i. example_number (column ?p ''TOTAL_ON_HAND'' ! i)"
  let ?fw = "\<lambda>i. example_number (column ?w ''POH'' ! i)"
  have wp: "wf_frame ?p" and ww: "wf_frame ?w" by code_simp+
  have cp: "column ?p ''TOTAL_ON_HAND'' = [Obj (JStr ''abc'')]"
    and cw: "column ?w ''POH'' = [Obj (JStr ''abc'')]" by code_simp+
  have nan: "example_number (Obj (JStr ''abc'')) = NaN" by (simp add: example_number_def)
  have hp: "has_column ?p ''TOTAL_ON_HAND''" "''TOTAL_ON_HAND'' \<in> set PRODUCT_QTY_COLS" "0 < nrows ?p"
    by code_simp+
  have hw: "has_column ?w ''POH''" "''POH'' \<in> set (WAREHOUSE_QTY_COLS @ [''PRODUCT_ID'', ''WH_ID''])"
    "0 < nrows ?w"
    by code_simp+
  have np: "to_numeric example_pandas (column ?p ''TOTAL_ON_HAND'') = Inr ?fp"
    and nw: "to_numeric example_pandas (column ?w ''POH'') = Inr ?fw"
    by (simp_all add: example_pandas_def)
  have fp: "?fp 0 = NaN" and fw: "?fw 0 = NaN" using cp cw nan by simp_all
  have "case clean_products_df example_pandas ?p of Inl e \<Rightarrow> False | Inr out \<Rightarrow> True" by code_simp
  then obtain op where op: "clean_products_df example_pandas ?p = Inr op"
    by (cases "clean_products_df example_pandas ?p") auto
  have "case clean_wh_df example_pandas ?w of Inl e \<Rightarrow> False | Inr out \<Rightarrow> True" by code_simp
  then obtain ow where ow: "clean_wh_df example_pandas ?w = Inr ow"
    by (cases "clean_wh_df example_pandas ?w") auto
  from unparsable_quantity_is_zero [OF wp hp(1) np hp(3) fp, of op] hp(2) op
  have "column op ''TOTAL_ON_HAND'' ! 0 = Int64 (Some 0)" by blast
  moreover from unparsable_quantity_is_zero [OF ww hw(1) nw hw(3) fw, of ow] hw(2) ow
  have "column ow ''POH'' ! 0 = Int64 (Some 0)" by blast
  ultimately show ?thesis using cp cw nan op ow by blast
qed

end
